theory Spec2Isabelle
  imports
    Complex_Main
    "HOL-Library.AList"
    "HOL-Library.Char_ord"
    "HOL-Library.List_Lexorder"
    "HOL-Library.Multiset"
begin

section \<open>The runtime: time values and calendar dates\<close>

text \<open>
  A JavaScript \<open>Date\<close> holds a time value: the milliseconds since the epoch, an
  integer. The embedding works on that integer (\<open>date.getTime()\<close>). The functions of
  this section are the abstract operations the language standard gives for
  \<open>Date.prototype.getFullYear\<close>, \<open>getMonth\<close>, \<open>getDate\<close>, \<open>setHours\<close>,
  \<open>setMinutes\<close>, \<open>setSeconds\<close> and \<open>setMilliseconds\<close>, under their standard names.
  Only valid dates are modelled (no \<open>NaN\<close> time value, no clipping at the end of
  the representable range).
\<close>

definition msPerDay :: int where
  "msPerDay = 86400000"

definition Day :: "int \<Rightarrow> int" where
  "Day t = t div msPerDay"

definition HourFromTime :: "int \<Rightarrow> int" where
  "HourFromTime t = (t div 3600000) mod 24"

definition MinFromTime :: "int \<Rightarrow> int" where
  "MinFromTime t = (t div 60000) mod 60"

definition SecFromTime :: "int \<Rightarrow> int" where
  "SecFromTime t = (t div 1000) mod 60"

definition msFromTime :: "int \<Rightarrow> int" where
  "msFromTime t = t mod 1000"

definition MakeTime :: "int \<Rightarrow> int \<Rightarrow> int \<Rightarrow> int \<Rightarrow> int" where
  "MakeTime h m s milli = h * 3600000 + m * 60000 + s * 1000 + milli"

definition MakeDate :: "int \<Rightarrow> int \<Rightarrow> int" where
  "MakeDate dy tm = dy * msPerDay + tm"

definition DayFromYear :: "int \<Rightarrow> int" where
  "DayFromYear y =
     365 * (y - 1970) + (y - 1969) div 4 - (y - 1901) div 100 + (y - 1601) div 400"

definition DaysInYear :: "int \<Rightarrow> int" where
  "DaysInYear y =
     (if y mod 4 \<noteq> 0 then 365
      else if y mod 100 \<noteq> 0 then 366
      else if y mod 400 \<noteq> 0 then 365
      else 366)"

text \<open>
  \<open>YearFromTime t\<close> is the largest year \<open>y\<close> whose first day is not after \<open>t\<close>.
  It is computed from an estimate that is off by one year at most; that the
  result is the year of the standard is lemma \<open>YearFromTime_bounds\<close>.
\<close>

definition YearFromDay :: "int \<Rightarrow> int" where
  "YearFromDay d =
     (let y = 1970 + (400 * d) div 146097
      in if DayFromYear (y + 1) \<le> d then y + 1
         else if DayFromYear y \<le> d then y
         else y - 1)"

definition YearFromTime :: "int \<Rightarrow> int" where
  "YearFromTime t = YearFromDay (Day t)"

definition InLeapYear :: "int \<Rightarrow> bool" where
  "InLeapYear t = (DaysInYear (YearFromTime t) = 366)"

definition DayWithinYear :: "int \<Rightarrow> int" where
  "DayWithinYear t = Day t - DayFromYear (YearFromTime t)"

definition MonthFromTime :: "int \<Rightarrow> int" where
  "MonthFromTime t =
     (let d = DayWithinYear t; l = (if InLeapYear t then 1 else 0)
      in if d < 31 then 0
         else if d < 59 + l then 1
         else if d < 90 + l then 2
         else if d < 120 + l then 3
         else if d < 151 + l then 4
         else if d < 181 + l then 5
         else if d < 212 + l then 6
         else if d < 243 + l then 7
         else if d < 273 + l then 8
         else if d < 304 + l then 9
         else if d < 334 + l then 10
         else 11)"

definition DateFromTime :: "int \<Rightarrow> int" where
  "DateFromTime t =
     (let d = DayWithinYear t; l = (if InLeapYear t then 1 else 0); m = MonthFromTime t
      in if m = 0 then d + 1
         else if m = 1 then d - 30
         else if m = 2 then d - 58 - l
         else if m = 3 then d - 89 - l
         else if m = 4 then d - 119 - l
         else if m = 5 then d - 150 - l
         else if m = 6 then d - 180 - l
         else if m = 7 then d - 211 - l
         else if m = 8 then d - 242 - l
         else if m = 9 then d - 272 - l
         else if m = 10 then d - 303 - l
         else d - 333 - l)"

text \<open>
  The local time zone of the process: the offset of local time from UTC, in
  milliseconds, at a UTC instant (\<open>offsetAtUTC\<close>) and at a local time value
  (\<open>offsetAtLocal\<close>); the standard's \<open>LocalTZA(t, true)\<close> and \<open>LocalTZA(t, false)\<close>.
  A zone without daylight saving has one constant offset.
\<close>

record time_zone =
  offsetAtUTC :: "int \<Rightarrow> int"
  offsetAtLocal :: "int \<Rightarrow> int"

definition fixedZone :: "int \<Rightarrow> time_zone" where
  "fixedZone off = \<lparr>offsetAtUTC = (\<lambda>_. off), offsetAtLocal = (\<lambda>_. off)\<rparr>"

definition LocalTime :: "time_zone \<Rightarrow> int \<Rightarrow> int" where
  "LocalTime tz t = t + offsetAtUTC tz t"

definition UTC :: "time_zone \<Rightarrow> int \<Rightarrow> int" where
  "UTC tz t = t - offsetAtLocal tz t"

definition getFullYear :: "time_zone \<Rightarrow> int \<Rightarrow> int" where
  "getFullYear tz t = YearFromTime (LocalTime tz t)"

definition getMonth :: "time_zone \<Rightarrow> int \<Rightarrow> int" where
  "getMonth tz t = MonthFromTime (LocalTime tz t)"

definition getDate :: "time_zone \<Rightarrow> int \<Rightarrow> int" where
  "getDate tz t = DateFromTime (LocalTime tz t)"

definition setHours :: "time_zone \<Rightarrow> int \<Rightarrow> int \<Rightarrow> int" where
  "setHours tz h t =
     (let lt = LocalTime tz t
      in UTC tz (MakeDate (Day lt) (MakeTime h (MinFromTime lt) (SecFromTime lt) (msFromTime lt))))"

definition setMinutes :: "time_zone \<Rightarrow> int \<Rightarrow> int \<Rightarrow> int" where
  "setMinutes tz m t =
     (let lt = LocalTime tz t
      in UTC tz (MakeDate (Day lt) (MakeTime (HourFromTime lt) m (SecFromTime lt) (msFromTime lt))))"

definition setSeconds :: "time_zone \<Rightarrow> int \<Rightarrow> int \<Rightarrow> int" where
  "setSeconds tz s t =
     (let lt = LocalTime tz t
      in UTC tz (MakeDate (Day lt) (MakeTime (HourFromTime lt) (MinFromTime lt) s (msFromTime lt))))"

definition setMilliseconds :: "time_zone \<Rightarrow> int \<Rightarrow> int \<Rightarrow> int" where
  "setMilliseconds tz milli t =
     (let lt = LocalTime tz t
      in UTC tz (MakeDate (Day lt) (MakeTime (HourFromTime lt) (MinFromTime lt) (SecFromTime lt) milli)))"

text \<open>\<open>Math.round\<close>: the nearest integer, a tie going towards plus infinity.\<close>

definition Math_round :: "real \<Rightarrow> int" where
  "Math_round x = \<lfloor>x + 1 / 2\<rfloor>"

text \<open>A number in a template literal: its decimal digits, with a minus sign if negative.\<close>

fun digitsOf :: "nat \<Rightarrow> string" where
  "digitsOf n =
     (if n < 10 then [''0123456789'' ! n]
      else digitsOf (n div 10) @ [''0123456789'' ! (n mod 10)])"

definition toString :: "int \<Rightarrow> string" where
  "toString i = (if i < 0 then CHR ''-'' # digitsOf (nat (- i)) else digitsOf (nat i))"


section \<open>The runtime: lodash and JavaScript objects\<close>

text \<open>
  A JavaScript object with string keys is an association list with distinct keys,
  in the order in which the keys were first written: that is the order in which
  \<open>toPairs\<close> lists them. (Keys that read as array indices are listed first by the
  language. A day key always holds a \<open>-\<close>; the pairs of the intersections are
  sorted by name before they are used, and no property below depends on the order
  of the intersections in the processed data.)
\<close>

type_synonym 'v obj = "(string \<times> 'v) list"

definition toPairs :: "'v obj \<Rightarrow> (string \<times> 'v) list" where
  "toPairs ob = ob"

text \<open>
  \<open>fromPairs\<close> assigns \<open>result[key] = value\<close>, pair after pair, to an object that
  starts empty: a key written before keeps its place and gets the new value. The
  assignment to the key \<open>__proto__\<close> writes no key: it runs the setter of
  \<open>Object.prototype\<close>, which makes the value (an object, in both uses below) the
  prototype of the result.
\<close>

definition fromPairs :: "(string \<times> 'v) list \<Rightarrow> 'v obj" where
  "fromPairs ps =
     foldl (\<lambda>ob (k, v). if k = ''__proto__'' then ob else AList.update k v ob) [] ps"

text \<open>\<open>groupBy\<close>: each element is pushed on the array of its key; a new key is added last.\<close>

fun groupPush :: "string \<Rightarrow> 'a \<Rightarrow> 'a list obj \<Rightarrow> 'a list obj" where
  "groupPush k x [] = [(k, [x])]"
| "groupPush k x ((k', xs) # ob) =
     (if k' = k then (k', xs @ [x]) # ob else (k', xs) # groupPush k x ob)"

definition groupBy :: "'a list \<Rightarrow> ('a \<Rightarrow> string) \<Rightarrow> 'a list obj" where
  "groupBy xs f = foldl (\<lambda>ob x. groupPush (f x) x ob) [] xs"

text \<open>\<open>uniqBy\<close>: an element is kept when no earlier element has its key.\<close>

fun baseUniq :: "('a \<Rightarrow> 'k) \<Rightarrow> 'k list \<Rightarrow> 'a list \<Rightarrow> 'a list" where
  "baseUniq f seen [] = []"
| "baseUniq f seen (x # xs) =
     (if f x \<in> set seen then baseUniq f seen xs else x # baseUniq f (f x # seen) xs)"

definition uniqBy :: "'a list \<Rightarrow> ('a \<Rightarrow> 'k) \<Rightarrow> 'a list" where
  "uniqBy xs f = baseUniq f [] xs"

text \<open>\<open>sortBy\<close> is a stable sort, ascending by the key; \<open>dropRight\<close> drops the last element.\<close>

definition sortBy :: "'a list \<Rightarrow> ('a \<Rightarrow> 'k::linorder) \<Rightarrow> 'a list" where
  "sortBy xs f = sort_key f xs"

definition dropRight :: "'a list \<Rightarrow> 'a list" where
  "dropRight xs = butlast xs"

section \<open>Errors\<close>

text \<open>
  What the program can throw: the rejection of the store's query, the string thrown
  by the length check of \<open>getCountsByDay\<close>, and the \<open>TypeError\<close> of reading
  \<open>location\<close> of \<open>undefined\<close> in \<open>getLocation\<close>.
\<close>

datatype error = StoreError | LengthCheckFailed | LocationTypeError

text \<open>\<open>map\<close> with a callback that may throw: the first throw ends the iteration.\<close>

fun mapE :: "('a \<Rightarrow> error + 'b) \<Rightarrow> 'a list \<Rightarrow> error + 'b list" where
  "mapE f [] = Inr []"
| "mapE f (x # xs) =
     (case f x of
        Inl e \<Rightarrow> Inl e
      | Inr y \<Rightarrow> (case mapE f xs of Inl e \<Rightarrow> Inl e | Inr ys \<Rightarrow> Inr (y # ys)))"

section \<open>constants/time.js\<close>

definition ONE_HOUR_MS :: int where
  "ONE_HOUR_MS = 60 * 60 * 1000"

definition TEN_MINUTES_MS :: int where
  "TEN_MINUTES_MS = 10 * 60 * 1000"

text \<open>
  \<open>Date.parse("2023-12-30T00:00:00.000-08:00")\<close>: midnight of 30 December 2023 at
  eight hours behind UTC (lemma \<open>LAUNCH_DAY_is_parsed\<close>).
\<close>

definition LAUNCH_DAY :: int where
  "LAUNCH_DAY = 1703923200000"

text \<open>\<open>now\<close> is what \<open>Date.now()\<close> returns when the function runs.\<close>

definition getLocalMidnightNDaysAgo :: "time_zone \<Rightarrow> int \<Rightarrow> int \<Rightarrow> int" where
  "getLocalMidnightNDaysAgo tz now n =
     (let midnight = now - n * 24 * 60 * 60 * 1000;
          midnight = setHours tz 0 midnight;
          midnight = setMinutes tz 0 midnight;
          midnight = setSeconds tz 0 midnight;
          midnight = setMilliseconds tz 0 midnight
      in midnight)"

definition getInitialTimeLastFetched :: "time_zone \<Rightarrow> int \<Rightarrow> int" where
  "getInitialTimeLastFetched tz now =
     (let ONE_WEEK_AGO = getLocalMidnightNDaysAgo tz now 7
      in max LAUNCH_DAY ONE_WEEK_AGO - ONE_HOUR_MS)"

section \<open>server.js: the data\<close>

text \<open>
  A document of the \<open>vehiclecounts\<close> collection has the fields \<open>_id\<close> (read through
  \<open>_id.toHexString()\<close> only: field \<open>hexId\<close>), \<open>intersection\<close>, \<open>timestamp\<close> and
  \<open>vehicleCount\<close>. The quantized points of \<open>processAndCacheData\<close> keep the last
  three, the objects picked in \<open>getOrganizedCounts\<close> the last two.
\<close>

record dto =
  timestamp :: int
  vehicleCount :: int

record point = dto +
  intersection :: string

record document = point +
  hexId :: string

text \<open>
  The value of an intersection in the processed data. Its \<open>location\<close> is what
  \<open>getLocation\<close> returned: \<open>Some\<close> location of the camera file, or \<open>None\<close> for
  \<open>undefined\<close>.
\<close>

record 'loc aggregate =
  location :: "'loc option"
  data :: "int list obj"

text \<open>
  The module's state: the variable \<open>timeLastFetched\<close> and the two keys of the
  cache (\<open>None\<close>: the key was never set, \<open>cache.get\<close> returns \<open>undefined\<close>). The cache
  has no expiry time.
\<close>

record 'loc state =
  timeLastFetched :: int
  VEHICLE_COUNTS :: "document list option"
  PROCESSED_DATA :: "'loc aggregate obj option"

text \<open>
  What does not change while the process runs: its time zone and \<open>cameraData\<close>, the
  camera file keyed by name (only the \<open>location\<close> of an entry is read). \<open>cameraData\<close>
  is a plain object, so besides the names of the file it answers to the names that
  \<open>Object.prototype\<close> carries.
\<close>

record 'loc config =
  zone :: time_zone
  cameraData :: "string \<rightharpoonup> 'loc"

text \<open>
  What one run of \<open>fetchProcessAndCacheNewData\<close> reads from outside: the clock at
  \<open>new Date()\<close> in \<open>fetchAndCacheRecords\<close>, the collection as the query finds it (or
  the error the query is rejected with), the clock when \<open>filterRollingWeek\<close> runs,
  and the clock when \<open>getOrganizedCounts\<close> runs for the intersection of a name.
\<close>

record tick =
  newDate :: int
  collection :: "error + document list"
  nowFilter :: int
  nowOrganize :: "string \<Rightarrow> int"

section \<open>server.js: the functions\<close>

definition roundToNearestQuarterHour :: "int \<Rightarrow> int" where
  "roundToNearestQuarterHour date =
     (let msPerQuarterHour = 15 * 60 * 1000
      in Math_round (real_of_int date / real_of_int msPerQuarterHour) * msPerQuarterHour)"

definition getYYYYMMDDDate :: "time_zone \<Rightarrow> int \<Rightarrow> string" where
  "getYYYYMMDDDate tz t =
     (let YYYY = getFullYear tz t;
          mm = getMonth tz t + 1;
          dd = getDate tz t
      in toString YYYY @ ''-'' @ toString mm @ ''-'' @ toString dd)"

definition getCountsByDay :: "time_zone \<Rightarrow> dto list \<Rightarrow> error + int list obj" where
  "getCountsByDay tz sortedCounts =
     (let countsByDay = groupBy sortedCounts (\<lambda>c. getYYYYMMDDDate tz (timestamp c));
          pairs = toPairs countsByDay;
          compactCounts = map (\<lambda>(date, vehicleCounts). (date, map vehicleCount vehicleCounts)) pairs;
          countsLengths = dropRight (map (\<lambda>(_, counts). length counts) compactCounts)
      in if list_ex (\<lambda>countsLength. countsLength \<noteq> 96) countsLengths
         then Inl LengthCheckFailed
         else Inr (fromPairs compactCounts))"

definition getOrganizedCounts :: "time_zone \<Rightarrow> int \<Rightarrow> point list \<Rightarrow> error + int list obj" where
  "getOrganizedCounts tz now countsArray =
     (let dataCutoffTime = max LAUNCH_DAY (getLocalMidnightNDaysAgo tz now 7);
          filteredData = filter (\<lambda>c. timestamp c \<ge> dataCutoffTime) countsArray;
          dtos = map (\<lambda>c. \<lparr>timestamp = timestamp c, vehicleCount = vehicleCount c\<rparr>) filteredData;
          uniques = uniqBy dtos timestamp;
          sortedCounts = sortBy uniques timestamp;
          countsByDay = getCountsByDay tz sortedCounts
      in countsByDay)"

text \<open>
  \<open>cameraData[intersectionName]["location"]\<close>. For a name of the camera file the
  first read gives its entry. For another name it gives what \<open>Object.prototype\<close> has
  under that name, a function or, for \<open>__proto__\<close>, \<open>Object.prototype\<close> itself: none
  of them has a \<open>location\<close>, and the second read gives \<open>undefined\<close>. For every other
  name the first read gives \<open>undefined\<close> and the second one throws.
\<close>

definition objectPrototypeKeys :: "string list" where
  "objectPrototypeKeys =
     [''constructor'', ''__defineGetter__'', ''__defineSetter__'', ''hasOwnProperty'',
      ''__lookupGetter__'', ''__lookupSetter__'', ''isPrototypeOf'', ''propertyIsEnumerable'',
      ''toString'', ''valueOf'', ''__proto__'', ''toLocaleString'']"

definition getLocation :: "(string \<rightharpoonup> 'loc) \<Rightarrow> string \<Rightarrow> error + 'loc option" where
  "getLocation cd intersectionName =
     (case cd intersectionName of
        Some entryLocation \<Rightarrow> Inr (Some entryLocation)
      | None \<Rightarrow>
         if intersectionName \<in> set objectPrototypeKeys then Inr None
         else Inl LocationTypeError)"

definition filterRollingWeek :: "time_zone \<Rightarrow> int \<Rightarrow> document list \<Rightarrow> document list" where
  "filterRollingWeek tz now vehicleCounts =
     (let dataCutoffTime = getLocalMidnightNDaysAgo tz now 7 - ONE_HOUR_MS;
          filteredData = filter (\<lambda>d. timestamp d \<ge> dataCutoffTime) vehicleCounts
      in sortBy filteredData timestamp)"

text \<open>
  \<open>processedIntersections\<close> of \<open>processAndCacheData\<close>: the object literal reads the
  location first, then the organized counts.
\<close>

definition processIntersection ::
    "'loc config \<Rightarrow> tick \<Rightarrow> string \<times> point list \<Rightarrow> error + string \<times> 'loc aggregate" where
  "processIntersection cfg tk = (\<lambda>(intersectionName, vehicleCounts).
     (case getLocation (cameraData cfg) intersectionName of
        Inl e \<Rightarrow> Inl e
      | Inr loc \<Rightarrow>
         (case getOrganizedCounts (zone cfg) (nowOrganize tk intersectionName) vehicleCounts of
            Inl e \<Rightarrow> Inl e
          | Inr counts \<Rightarrow> Inr (intersectionName, \<lparr>location = loc, data = counts\<rparr>))))"

definition quantize :: "document list \<Rightarrow> point list" where
  "quantize rollingWeek =
     map (\<lambda>d. \<lparr>timestamp = roundToNearestQuarterHour (timestamp d),
               vehicleCount = vehicleCount d,
               intersection = intersection d\<rparr>) rollingWeek"

definition processData ::
    "'loc config \<Rightarrow> tick \<Rightarrow> document list \<Rightarrow> error + 'loc aggregate obj" where
  "processData cfg tk rollingWeek =
     (let quantized = quantize rollingWeek;
          groupedByIntersection = groupBy quantized intersection;
          pairs = toPairs groupedByIntersection;
          sortedPairs = sortBy pairs fst
      in case mapE (processIntersection cfg tk) sortedPairs of
           Inl e \<Rightarrow> Inl e
         | Inr processedIntersections \<Rightarrow> Inr (fromPairs processedIntersections))"

text \<open>
  The functions that change the state return what they return, or the error they
  throw, with the state they leave.
\<close>

definition processAndCacheData ::
    "'loc config \<Rightarrow> tick \<Rightarrow> document list \<Rightarrow> 'loc state \<Rightarrow> (error + unit) \<times> 'loc state" where
  "processAndCacheData cfg tk rollingWeek s =
     (case processData cfg tk rollingWeek of
        Inl e \<Rightarrow> (Inl e, s)
      | Inr processedData \<Rightarrow> (Inr (), s\<lparr>PROCESSED_DATA := Some processedData\<rparr>))"

text \<open>The store's answer to \<open>find({timestamp: {$gt: t}})\<close>.\<close>

definition find_gt :: "error + document list \<Rightarrow> int \<Rightarrow> error + document list" where
  "find_gt coll t =
     (case coll of Inl e \<Rightarrow> Inl e | Inr docs \<Rightarrow> Inr (filter (\<lambda>d. timestamp d > t) docs))"

definition fetchAndCacheRecords ::
    "'loc config \<Rightarrow> tick \<Rightarrow> 'loc state \<Rightarrow> (error + document list) \<times> 'loc state" where
  "fetchAndCacheRecords cfg tk s =
     (let query = timeLastFetched s;
          s1 = s\<lparr>timeLastFetched := newDate tk\<rparr>
      in case find_gt (collection tk) query of
           Inl e \<Rightarrow> (Inl e, s1)
         | Inr fetched \<Rightarrow>
            (let cached = (case VEHICLE_COUNTS s1 of None \<Rightarrow> [] | Some c \<Rightarrow> c);
                 combined = cached @ fetched;
                 uniqueCombined = uniqBy combined hexId;
                 rollingWeek = filterRollingWeek (zone cfg) (nowFilter tk) uniqueCombined
             in (Inr rollingWeek, s1\<lparr>VEHICLE_COUNTS := Some rollingWeek\<rparr>)))"

text \<open>
  \<open>fetchProcessAndCacheNewData\<close> catches what the two stages throw; the model returns
  the caught error beside the state.
\<close>

definition fetchProcessAndCacheNewData ::
    "'loc config \<Rightarrow> tick \<Rightarrow> 'loc state \<Rightarrow> (error + unit) \<times> 'loc state" where
  "fetchProcessAndCacheNewData cfg tk s =
     (case fetchAndCacheRecords cfg tk s of
        (Inl e, s') \<Rightarrow> (Inl e, s')
      | (Inr rollingWeek, s') \<Rightarrow> processAndCacheData cfg tk rollingWeek s')"

text \<open>The state when the module is loaded, at clock \<open>now\<close>.\<close>

definition initialState :: "time_zone \<Rightarrow> int \<Rightarrow> 'loc state" where
  "initialState tz now =
     \<lparr>timeLastFetched = getInitialTimeLastFetched tz now,
      VEHICLE_COUNTS = None,
      PROCESSED_DATA = None\<rparr>"

text \<open>
  The states the process reaches: the timer runs \<open>fetchProcessAndCacheNewData\<close> again
  and again, one run after the other.
\<close>

inductive reachable :: "'loc config \<Rightarrow> 'loc state \<Rightarrow> bool" for cfg :: "'loc config" where
  start: "reachable cfg (initialState (zone cfg) now)"
| cycle: "reachable cfg s \<Longrightarrow> reachable cfg (snd (fetchProcessAndCacheNewData cfg tk s))"

text \<open>What \<open>GET /api/data/\<close> answers with: the processed data, or the empty object.\<close>

definition served :: "'loc state \<Rightarrow> 'loc aggregate obj" where
  "served s = (case PROCESSED_DATA s of None \<Rightarrow> [] | Some d \<Rightarrow> d)"

section \<open>Notions the properties are stated with\<close>

text \<open>
  The local variables \<open>sortedCounts\<close> of \<open>getOrganizedCounts\<close> and \<open>compactCounts\<close> of
  \<open>getCountsByDay\<close>, as functions of the arguments (lemmas \<open>getOrganizedCounts_sortedCounts\<close>
  and \<open>getCountsByDay_compactCounts\<close> tie them to the two functions).
\<close>

definition sortedCountsOf :: "time_zone \<Rightarrow> int \<Rightarrow> point list \<Rightarrow> dto list" where
  "sortedCountsOf tz now countsArray =
     sortBy
       (uniqBy
          (map (\<lambda>c. \<lparr>timestamp = timestamp c, vehicleCount = vehicleCount c\<rparr>)
             (filter (\<lambda>c. timestamp c \<ge> max LAUNCH_DAY (getLocalMidnightNDaysAgo tz now 7))
                countsArray))
          timestamp)
       timestamp"

definition compactCountsOf :: "time_zone \<Rightarrow> dto list \<Rightarrow> (string \<times> int list) list" where
  "compactCountsOf tz sortedCounts =
     map (\<lambda>(date, vehicleCounts). (date, map vehicleCount vehicleCounts))
       (toPairs (groupBy sortedCounts (\<lambda>c. getYYYYMMDDDate tz (timestamp c))))"

text \<open>Every day of a daily bucket but the last has 96 counts.\<close>

definition completeDays :: "int list obj \<Rightarrow> bool" where
  "completeDays counts = list_all (\<lambda>(day, cs). length cs = 96) (butlast counts)"

definition completeSnapshot :: "'loc aggregate obj \<Rightarrow> bool" where
  "completeSnapshot snap = list_all (\<lambda>(name, agg). completeDays (data agg)) snap"

text \<open>What \<open>fetchAndCacheRecords\<close> reads as \<open>cached\<close>: \<open>cache.get(VEHICLE_COUNTS) ?? []\<close>.\<close>

definition cachedWindow :: "'loc state \<Rightarrow> document list" where
  "cachedWindow s = (case VEHICLE_COUNTS s of None \<Rightarrow> [] | Some c \<Rightarrow> c)"

section \<open>Example data\<close>

text \<open>
  A process eight hours behind UTC all year, one camera, and a run in which every
  clock read gives the same instant and the query finds the given documents.
\<close>

definition pacific :: time_zone where
  "pacific = fixedZone (- 8 * ONE_HOUR_MS)"

definition exampleConfig :: "string config" where
  "exampleConfig = \<lparr>zone = pacific, cameraData = [''Main&1st'' \<mapsto> ''49.2827,-123.1207'']\<rparr>"

definition tickAt :: "int \<Rightarrow> error + document list \<Rightarrow> tick" where
  "tickAt now coll = \<lparr>newDate = now, collection = coll, nowFilter = now, nowOrganize = (\<lambda>_. now)\<rparr>"

text \<open>Noon of 12 January 2024 and noon of 31 December 2023, both at \<open>-08:00\<close>.\<close>

definition noonJan12 :: int where
  "noonJan12 = 1705089600000"

definition noonDec31 :: int where
  "noonDec31 = 1704052800000"

text \<open>
  Document \<open>k\<close> of 10 January 2024: read one second after the start of slot \<open>k\<close> of
  that day at \<open>-08:00\<close> (\<open>k = 96\<close> is the first slot of 11 January), counting \<open>k\<close>
  vehicles.
\<close>

definition hexDigits :: string where
  "hexDigits = ''0123456789abcdef''"

definition mkDoc :: "nat \<Rightarrow> document" where
  "mkDoc k =
     \<lparr>timestamp = 1704873600000 + int k * 900000 + 1000,
      vehicleCount = int k,
      intersection = ''Main&1st'',
      hexId = ''659e5a80c0ffee00'' @ [hexDigits ! (k div 16), hexDigits ! (k mod 16)]\<rparr>"





definition docNoon :: document where
  "docNoon =
     \<lparr>timestamp = noonJan12 + 300000, vehicleCount = 6, intersection = ''Main&1st'',
      hexId = ''65a19facc0ffee0005''\<rparr>"

definition docLate :: document where
  "docLate =
     \<lparr>timestamp = 1704009300000, vehicleCount = 8, intersection = ''Main&1st'',
      hexId = ''65911ed4c0ffee0004''\<rparr>"


definition docRace :: document where
  "docRace =
     \<lparr>timestamp = noonJan12 + 660000, vehicleCount = 7, intersection = ''Main&1st'',
      hexId = ''65a1a240c0ffee0007''\<rparr>"

definition docNoonRecount :: document where
  "docNoonRecount =
     \<lparr>timestamp = noonJan12 + 300000, vehicleCount = 60, intersection = ''Main&1st'',
      hexId = ''65a19facc0ffee0005''\<rparr>"

text \<open>
  Five minutes after the midnight that starts 12 January 2024 at \<open>-08:00\<close>. A
  document read at 10:00 of 4 January, and the document of the same \<open>_id\<close> as the
  store has it after an update at 00:06 of 12 January.
\<close>

definition earlyJan12 :: int where
  "earlyJan12 = 1705046700000"

definition docStale :: document where
  "docStale =
     \<lparr>timestamp = 1704391200000, vehicleCount = 9, intersection = ''Main&1st'',
      hexId = ''6596ea20c0ffee0008''\<rparr>"

definition docMoved :: document where
  "docMoved =
     \<lparr>timestamp = 1705046760000, vehicleCount = 9, intersection = ''Main&1st'',
      hexId = ''6596ea20c0ffee0008''\<rparr>"



section \<open>The calendar: the year of a day\<close>

lemma div_lower: "0 < n \<Longrightarrow> a - (n - 1) \<le> n * (a div n)" for a n :: int
proof -
  assume n: "0 < n"
  have "a mod n < n" using n by simp
  moreover have "a = n * (a div n) + a mod n" by simp
  ultimately show ?thesis by linarith
qed

lemma div_upper: "0 < n \<Longrightarrow> n * (a div n) \<le> a" for a n :: int
proof -
  assume n: "0 < n"
  have "0 \<le> a mod n" using n by simp
  moreover have "a = n * (a div n) + a mod n" by simp
  ultimately show ?thesis by linarith
qed

lemma DayFromYear_upper: "400 * DayFromYear y \<le> 146097 * (y - 1970) + 589"
proof -
  define q1 q2 q3 where "q1 = (y - 1969) div 4" and "q2 = (y - 1901) div 100"
    and "q3 = (y - 1601) div 400"
  have a: "4 * q1 \<le> y - 1969" unfolding q1_def by (rule div_upper) simp
  have b: "y - 1901 - (100 - 1) \<le> 100 * q2" unfolding q2_def by (rule div_lower) simp
  have c: "400 * q3 \<le> y - 1601" unfolding q3_def by (rule div_upper) simp
  have "DayFromYear y = 365 * (y - 1970) + q1 - q2 + q3"
    by (simp add: DayFromYear_def q1_def q2_def q3_def)
  then show ?thesis using a b c by (simp add: algebra_simps)
qed

lemma DayFromYear_lower: "146097 * (y - 1970) - 506 \<le> 400 * DayFromYear y"
proof -
  define q1 q2 q3 where "q1 = (y - 1969) div 4" and "q2 = (y - 1901) div 100"
    and "q3 = (y - 1601) div 400"
  have a: "y - 1969 - (4 - 1) \<le> 4 * q1" unfolding q1_def by (rule div_lower) simp
  have b: "100 * q2 \<le> y - 1901" unfolding q2_def by (rule div_upper) simp
  have c: "y - 1601 - (400 - 1) \<le> 400 * q3" unfolding q3_def by (rule div_lower) simp
  have "DayFromYear y = 365 * (y - 1970) + q1 - q2 + q3"
    by (simp add: DayFromYear_def q1_def q2_def q3_def)
  then show ?thesis using a b c by (simp add: algebra_simps)
qed

text \<open>
  The year computed for a day is the year of the standard: the one whose first day
  is not after the day and whose successor's first day is.
\<close>

lemma YearFromDay_bounds:
  "DayFromYear (YearFromDay d) \<le> d \<and> d < DayFromYear (YearFromDay d + 1)"
proof -
  define q where "q = (400 * d) div 146097"
  define y where "y = 1970 + q"
  have lo: "146097 * q \<le> 400 * d"
    unfolding q_def by (rule div_upper) simp
  have hi: "400 * d - (146097 - 1) \<le> 146097 * q"
    unfolding q_def by (rule div_lower) simp
  have 1: "DayFromYear (y - 1) \<le> d"
    using DayFromYear_upper [of "y - 1"] lo unfolding y_def by (simp add: algebra_simps)
  have 2: "d < DayFromYear (y + 1 + 1)"
    using DayFromYear_lower [of "y + 1 + 1"] hi unfolding y_def by (simp add: algebra_simps)
  have "YearFromDay d = (if DayFromYear (y + 1) \<le> d then y + 1
         else if DayFromYear y \<le> d then y else y - 1)"
    by (simp add: YearFromDay_def Let_def y_def q_def)
  then show ?thesis
    using 1 2 by auto
qed

lemma YearFromTime_bounds:
  "DayFromYear (YearFromTime t) \<le> Day t \<and> Day t < DayFromYear (YearFromTime t + 1)"
  unfolding YearFromTime_def by (rule YearFromDay_bounds)

section \<open>Facts about the lodash functions\<close>

subsection \<open>uniqBy\<close>

lemma baseUniq_keys: "set (map f (baseUniq f seen xs)) = f ` set xs - set seen"
  by (induction xs arbitrary: seen) auto

lemma baseUniq_subset: "set (baseUniq f seen xs) \<subseteq> set xs"
  by (induction xs arbitrary: seen) auto

lemma baseUniq_distinct: "distinct (map f (baseUniq f seen xs))"
  by (induction xs arbitrary: seen) (auto simp: baseUniq_keys simp flip: set_map)

lemma baseUniq_seen_cong: "set seen = set seen' \<Longrightarrow> baseUniq f seen xs = baseUniq f seen' xs"
proof (induction xs arbitrary: seen seen')
  case Nil
  then show ?case by simp
next
  case (Cons x xs)
  have "baseUniq f (f x # seen) xs = baseUniq f (f x # seen') xs"
    by (rule Cons.IH) (simp add: Cons.prems)
  moreover have "baseUniq f seen xs = baseUniq f seen' xs"
    by (rule Cons.IH) (rule Cons.prems)
  ultimately show ?case using Cons.prems by simp
qed

lemma baseUniq_append:
  "baseUniq f seen (xs @ ys) = baseUniq f seen xs @ baseUniq f (map f xs @ seen) ys"
proof (induction xs arbitrary: seen)
  case Nil
  then show ?case by simp
next
  case (Cons x xs)
  show ?case
  proof (cases "f x \<in> set seen")
    case True
    then have "set (map f (x # xs) @ seen) = set (map f xs @ seen)" by auto
    then have "baseUniq f (map f (x # xs) @ seen) ys = baseUniq f (map f xs @ seen) ys"
      by (rule baseUniq_seen_cong)
    with True Cons.IH [of seen] show ?thesis by simp
  next
    case False
    have "set (map f (x # xs) @ seen) = set (map f xs @ f x # seen)" by auto
    then have "baseUniq f (map f (x # xs) @ seen) ys = baseUniq f (map f xs @ f x # seen) ys"
      by (rule baseUniq_seen_cong)
    with False Cons.IH [of "f x # seen"] show ?thesis by simp
  qed
qed

lemma baseUniq_all_seen: "f ` set xs \<subseteq> set seen \<Longrightarrow> baseUniq f seen xs = []"
  by (induction xs arbitrary: seen) auto

lemma baseUniq_id: "distinct (map f xs) \<Longrightarrow> f ` set xs \<inter> set seen = {} \<Longrightarrow> baseUniq f seen xs = xs"
  by (induction xs arbitrary: seen) auto

lemma baseUniq_find:
  "find (\<lambda>x. f x = k) (baseUniq f seen xs) =
     (if k \<in> set seen then None else find (\<lambda>x. f x = k) xs)"
proof (induction xs arbitrary: seen)
  case Nil
  then show ?case by simp
next
  case (Cons x xs)
  then show ?case by (cases "f x \<in> set seen") auto
qed

lemma uniqBy_keys: "f ` set (uniqBy xs f) = f ` set xs"
  using baseUniq_keys [of f "[]" xs] by (simp add: uniqBy_def)

lemma uniqBy_subset: "set (uniqBy xs f) \<subseteq> set xs"
  by (simp add: uniqBy_def baseUniq_subset)

lemma uniqBy_distinct: "distinct (map f (uniqBy xs f))"
  by (simp add: uniqBy_def baseUniq_distinct)

lemma uniqBy_find: "find (\<lambda>x. f x = k) (uniqBy xs f) = find (\<lambda>x. f x = k) xs"
  by (simp add: uniqBy_def baseUniq_find)

lemma uniqBy_id: "distinct (map f xs) \<Longrightarrow> uniqBy xs f = xs"
  by (simp add: uniqBy_def baseUniq_id)

lemma uniqBy_snoc:
  "uniqBy (xs @ [x]) f = (if f x \<in> f ` set xs then uniqBy xs f else uniqBy xs f @ [x])"
  by (simp add: uniqBy_def baseUniq_append)

lemma uniqBy_absorb: "uniqBy (uniqBy (w @ xs) f @ xs) f = uniqBy (w @ xs) f"
proof -
  let ?u = "uniqBy (w @ xs) f"
  have "uniqBy (?u @ xs) f = baseUniq f [] ?u @ baseUniq f (map f ?u @ []) xs"
    unfolding uniqBy_def by (rule baseUniq_append)
  moreover have "baseUniq f [] ?u = ?u"
    by (rule baseUniq_id) (simp_all add: uniqBy_distinct)
  moreover have "baseUniq f (map f ?u @ []) xs = []"
    by (rule baseUniq_all_seen) (simp add: uniqBy_keys image_Un)
  ultimately show ?thesis by simp
qed

subsection \<open>groupBy\<close>

lemma groupPush_map:
  "distinct ks \<Longrightarrow>
   groupPush k x (map (\<lambda>k'. (k', g k')) ks) =
     (if k \<in> set ks then map (\<lambda>k'. (k', if k' = k then g k' @ [x] else g k')) ks
      else map (\<lambda>k'. (k', g k')) ks @ [(k, [x])])"
  by (induction ks) auto

lemma groupBy_eq:
  "groupBy xs f = map (\<lambda>k. (k, filter (\<lambda>x. f x = k) xs)) (uniqBy (map f xs) id)"
proof (induction xs rule: rev_induct)
  case Nil
  then show ?case by (simp add: groupBy_def uniqBy_def)
next
  case (snoc x xs)
  let ?ks = "uniqBy (map f xs) id"
  have d: "distinct ?ks" using uniqBy_distinct [of id "map f xs"] by simp
  have s: "set ?ks = f ` set xs" using uniqBy_keys [of id "map f xs"] by simp
  have "groupBy (xs @ [x]) f = groupPush (f x) x (groupBy xs f)"
    by (simp add: groupBy_def)
  also have "\<dots> = groupPush (f x) x (map (\<lambda>k. (k, filter (\<lambda>y. f y = k) xs)) ?ks)"
    by (simp only: snoc.IH)
  also have "\<dots> = map (\<lambda>k. (k, filter (\<lambda>y. f y = k) (xs @ [x]))) (uniqBy (map f (xs @ [x])) id)"
  proof (cases "f x \<in> f ` set xs")
    case True
    then show ?thesis
      using d s by (simp add: groupPush_map uniqBy_snoc)
  next
    case False
    then have "\<forall>y\<in>set xs. \<not> f y = f x"
      by (metis imageI)
    then have "filter (\<lambda>y. f y = f x) xs = []"
      by (rule filter_False)
    with False show ?thesis
      using d s by (auto simp add: groupPush_map uniqBy_snoc)
  qed
  finally show ?case .
qed

lemma groupBy_keys_distinct: "distinct (map fst (groupBy xs f))"
  using uniqBy_distinct [of id "map f xs"] by (simp add: groupBy_eq comp_def)

lemma groupBy_keys: "fst ` set (groupBy xs f) = f ` set xs"
  using uniqBy_keys [of id "map f xs"] by (force simp add: groupBy_eq)

lemma groupBy_member:
  "(k, g) \<in> set (groupBy xs f) \<longleftrightarrow> k \<in> f ` set xs \<and> g = filter (\<lambda>x. f x = k) xs"
  using uniqBy_keys [of id "map f xs"] by (auto simp add: groupBy_eq)

subsection \<open>fromPairs\<close>

lemma update_fresh: "k \<notin> fst ` set al \<Longrightarrow> AList.update k v al = al @ [(k, v)]"
  by (induction al) auto

lemma fromPairs_foldl:
  "distinct (map fst (acc @ ps)) \<Longrightarrow>
   foldl (\<lambda>ob (k, v). if k = ''__proto__'' then ob else AList.update k v ob) acc ps
     = acc @ filter (\<lambda>p. fst p \<noteq> ''__proto__'') ps"
proof (induction ps arbitrary: acc)
  case Nil
  then show ?case by simp
next
  case (Cons p ps)
  obtain k v where p: "p = (k, v)" by (cases p)
  show ?case
  proof (cases "k = ''__proto__''")
    case True
    moreover have "distinct (map fst (acc @ ps))" using Cons.prems by simp
    ultimately show ?thesis using Cons.IH [of acc] p by simp
  next
    case False
    have "k \<notin> fst ` set acc" using Cons.prems p by auto
    then have "AList.update k v acc = acc @ [(k, v)]" by (rule update_fresh)
    moreover have "distinct (map fst ((acc @ [(k, v)]) @ ps))" using Cons.prems p by simp
    ultimately show ?thesis using Cons.IH [of "acc @ [(k, v)]"] p False by simp
  qed
qed

lemma fromPairs_filter:
  "distinct (map fst ps) \<Longrightarrow> fromPairs ps = filter (\<lambda>p. fst p \<noteq> ''__proto__'') ps"
  using fromPairs_foldl [of "[]" ps] by (simp add: fromPairs_def)

lemma fromPairs_distinct:
  "distinct (map fst ps) \<Longrightarrow> ''__proto__'' \<notin> fst ` set ps \<Longrightarrow> fromPairs ps = ps"
proof -
  assume d: "distinct (map fst ps)" and n: "''__proto__'' \<notin> fst ` set ps"
  from n have "\<forall>p\<in>set ps. fst p \<noteq> ''__proto__''" by force
  with d show ?thesis by (simp add: fromPairs_filter filter_id_conv)
qed

subsection \<open>mapE\<close>

lemma mapE_Inr_D: "mapE f xs = Inr ys \<Longrightarrow> list_all2 (\<lambda>x y. f x = Inr y) xs ys"
proof (induction xs arbitrary: ys)
  case Nil
  then show ?case by simp
next
  case (Cons x xs)
  from Cons.prems obtain y ys' where y: "f x = Inr y" and ys': "mapE f xs = Inr ys'"
    and ys: "ys = y # ys'"
    by (auto split: sum.splits)
  from Cons.IH [OF ys'] y ys show ?case by simp
qed

lemma mapE_Inr_I: "list_all2 (\<lambda>x y. f x = Inr y) xs ys \<Longrightarrow> mapE f xs = Inr ys"
  by (induction xs ys rule: list_all2_induct) auto

lemma mapE_Inl: "(\<exists>e. mapE f xs = Inl e) \<longleftrightarrow> (\<exists>x \<in> set xs. \<exists>e. f x = Inl e)"
  by (induction xs) (auto split: sum.splits)


section \<open>Quantization\<close>

text \<open>
  The program divides in double precision. A time value of a \<open>Date\<close> is below
  \<open>8.64e15\<close> in absolute value, so the quotient is below \<open>2^34\<close> and doubles
  are spaced less than \<open>2 / 900000\<close> apart there: the double nearest to the quotient
  is on the same side of every half integer as the quotient itself, and
  \<open>Math.round\<close> of it is \<open>Math_round\<close> of the exact quotient.
\<close>

lemma Math_round_quotient:
  "0 < n \<Longrightarrow> Math_round (real_of_int m / real_of_int (2 * n)) = (m + n) div (2 * n)"
proof -
  assume n: "0 < n"
  have "real_of_int m / real_of_int (2 * n) + 1 / 2 = real_of_int (m + n) / real_of_int (2 * n)"
    using n by (simp add: field_simps)
  then have "Math_round (real_of_int m / real_of_int (2 * n)) = \<lfloor>real_of_int (m + n) / real_of_int (2 * n)\<rfloor>"
    by (simp only: Math_round_def)
  also have "\<dots> = (m + n) div (2 * n)"
    by (rule floor_divide_of_int_eq)
  finally show ?thesis .
qed

lemma roundToNearestQuarterHour_div:
  "roundToNearestQuarterHour m = (m + 450000) div 900000 * 900000"
  using Math_round_quotient [of 450000 m]
  by (simp add: roundToNearestQuarterHour_def)

declare roundToNearestQuarterHour_div [code]

text \<open>
  Claim C3. For a timestamp of \<open>m\<close> milliseconds since the epoch, the quantized instant
  is \<open>round(m / 900000) * 900000\<close>, rounding half up: it is a multiple of 900000
  that is at most 450000 above \<open>m\<close> and less than 450000 below, so a tie goes up.
  A timestamp 7 minutes 29 seconds into a slot goes to the slot's start, one 7 minutes
  30 or 31 seconds into it to the next slot's start.
\<close>

theorem quarter_hour_rounding:
  "900000 dvd roundToNearestQuarterHour m
   \<and> roundToNearestQuarterHour m - 450000 \<le> m
   \<and> m < roundToNearestQuarterHour m + 450000
   \<and> roundToNearestQuarterHour m = Math_round (real_of_int m / 900000) * 900000
   \<and> roundToNearestQuarterHour (900000 * k + 449000) = 900000 * k
   \<and> roundToNearestQuarterHour (900000 * k + 450000) = 900000 * k + 900000
   \<and> roundToNearestQuarterHour (900000 * k + 451000) = 900000 * k + 900000"
proof -
  define q where "q = (m + 450000) div 900000"
  have r: "roundToNearestQuarterHour m = 900000 * q"
    by (simp add: roundToNearestQuarterHour_div q_def)
  have lo: "900000 * q \<le> m + 450000"
    unfolding q_def by (rule div_upper) simp
  have hi: "m + 450000 - (900000 - 1) \<le> 900000 * q"
    unfolding q_def by (rule div_lower) simp
  have 1: "900000 dvd roundToNearestQuarterHour m" by (simp add: r)
  have 2: "roundToNearestQuarterHour m - 450000 \<le> m" using lo by (simp add: r)
  have 3: "m < roundToNearestQuarterHour m + 450000" using hi by (simp add: r)
  have 4: "roundToNearestQuarterHour m = Math_round (real_of_int m / 900000) * 900000"
    by (simp add: roundToNearestQuarterHour_def)
  have 5: "roundToNearestQuarterHour (900000 * k + 449000) = 900000 * k"
    by (simp add: roundToNearestQuarterHour_div)
  have 6: "roundToNearestQuarterHour (900000 * k + 450000) = 900000 * k + 900000"
    by (simp add: roundToNearestQuarterHour_div)
  have 7: "roundToNearestQuarterHour (900000 * k + 451000) = 900000 * k + 900000"
    by (simp add: roundToNearestQuarterHour_div)
  from 1 2 3 4 5 6 7 show ?thesis by blast
qed

section \<open>The source functions and their local values\<close>

lemma getOrganizedCounts_sortedCounts:
  "getOrganizedCounts tz now countsArray = getCountsByDay tz (sortedCountsOf tz now countsArray)"
  by (simp add: getOrganizedCounts_def sortedCountsOf_def Let_def)

lemma compactCountsOf_keys_distinct: "distinct (map fst (compactCountsOf tz sortedCounts))"
proof -
  have "map fst (compactCountsOf tz sortedCounts) =
        map fst (groupBy sortedCounts (\<lambda>c. getYYYYMMDDDate tz (timestamp c)))"
    by (simp add: compactCountsOf_def toPairs_def comp_def case_prod_unfold)
  then show ?thesis by (simp add: groupBy_keys_distinct)
qed

text \<open>A day key is made of digits and \<open>-\<close>: it is not the key \<open>__proto__\<close>.\<close>

lemma digit_char: "k < 10 \<Longrightarrow> ''0123456789'' ! k \<in> set ''0123456789''"
  by (intro nth_mem) simp

lemma digitsOf_chars: "set (digitsOf n) \<subseteq> set ''0123456789''"
proof (induction n rule: digitsOf.induct)
  case (1 n)
  show ?case
  proof (cases "n < 10")
    case True
    then have "digitsOf n = [''0123456789'' ! n]"
      by (subst digitsOf.simps) (simp del: digitsOf.simps)
    with digit_char [OF True] show ?thesis by (simp del: digitsOf.simps)
  next
    case False
    then have e: "digitsOf n = digitsOf (n div 10) @ [''0123456789'' ! (n mod 10)]"
      by (subst digitsOf.simps) (simp del: digitsOf.simps)
    have "n mod 10 < 10" by simp
    from digit_char [OF this] 1 [OF False] show ?thesis
      unfolding e by (simp del: digitsOf.simps)
  qed
qed

lemma toString_chars: "set (toString i) \<subseteq> set ''-0123456789''"
proof -
  have "set ''0123456789'' \<subseteq> set ''-0123456789''" by auto
  with digitsOf_chars [of "nat i"] digitsOf_chars [of "nat (- i)"]
  have "set (digitsOf (nat i)) \<subseteq> set ''-0123456789''"
    and "set (digitsOf (nat (- i))) \<subseteq> set ''-0123456789''" by blast+
  then show ?thesis by (simp add: toString_def del: digitsOf.simps)
qed

lemma getYYYYMMDDDate_not_proto: "getYYYYMMDDDate tz t \<noteq> ''__proto__''"
proof
  assume e: "getYYYYMMDDDate tz t = ''__proto__''"
  have c: "set (getYYYYMMDDDate tz t) \<subseteq> set ''-0123456789''"
    using toString_chars [of "getFullYear tz t"] toString_chars [of "getMonth tz t + 1"]
      toString_chars [of "getDate tz t"]
    by (simp add: getYYYYMMDDDate_def Let_def del: digitsOf.simps)
  have "CHR ''_'' \<in> set ''__proto__''" by simp
  then have "CHR ''_'' \<in> set (getYYYYMMDDDate tz t)" by (simp only: e)
  then have "CHR ''_'' \<in> set ''-0123456789''" using c by (rule rev_subsetD)
  then show False by simp
qed

lemma compactCountsOf_keys_not_proto: "''__proto__'' \<notin> fst ` set (compactCountsOf tz sortedCounts)"
proof -
  have "fst ` set (compactCountsOf tz sortedCounts)
          = fst ` set (groupBy sortedCounts (\<lambda>c. getYYYYMMDDDate tz (timestamp c)))"
    by (force simp add: compactCountsOf_def toPairs_def)
  then show ?thesis by (auto simp add: groupBy_keys not_sym [OF getYYYYMMDDDate_not_proto])
qed

lemma list_ex_lengths:
  "list_ex (\<lambda>n. n \<noteq> (96::nat)) (butlast (map (\<lambda>(_, counts). length counts) ps))
     = (\<not> list_all (\<lambda>(day, cs). length cs = 96) (butlast ps))"
  by (simp add: list_ex_iff list_all_iff map_butlast [symmetric] case_prod_unfold)

lemma getCountsByDay_compactCounts:
  "getCountsByDay tz sortedCounts =
     (if completeDays (compactCountsOf tz sortedCounts)
      then Inr (compactCountsOf tz sortedCounts)
      else Inl LengthCheckFailed)"
proof -
  have "fromPairs (compactCountsOf tz sortedCounts) = compactCountsOf tz sortedCounts"
    by (rule fromPairs_distinct) (rule compactCountsOf_keys_distinct compactCountsOf_keys_not_proto)+
  then show ?thesis
    unfolding getCountsByDay_def Let_def dropRight_def completeDays_def
      compactCountsOf_def [symmetric] list_ex_lengths
    by simp
qed

lemma getOrganizedCounts_Inr:
  "getOrganizedCounts tz now pts = Inr counts \<Longrightarrow>
     completeDays counts \<and> counts = compactCountsOf tz (sortedCountsOf tz now pts)"
  by (auto simp add: getOrganizedCounts_sortedCounts getCountsByDay_compactCounts split: if_splits)

lemma getOrganizedCounts_Inl:
  "getOrganizedCounts tz now pts = Inl e \<Longrightarrow>
     e = LengthCheckFailed \<and> \<not> completeDays (compactCountsOf tz (sortedCountsOf tz now pts))"
  by (auto simp add: getOrganizedCounts_sortedCounts getCountsByDay_compactCounts split: if_splits)

section \<open>The rolling window\<close>

lemma sortBy_stable_sorted:
  "sorted (map f (sortBy xs f)) \<and> mset (sortBy xs f) = mset xs"
  by (simp add: sortBy_def)

text \<open>
  Claim C6. After pruning, the records kept are exactly the input records (with
  their multiplicity) whose timestamp is at least the local midnight seven days ago
  minus one hour, and they are in ascending order of timestamp.
\<close>

theorem window_bound:
  "mset (filterRollingWeek tz now vehicleCounts) =
     filter_mset (\<lambda>d. getLocalMidnightNDaysAgo tz now 7 - ONE_HOUR_MS \<le> timestamp d)
       (mset vehicleCounts)
   \<and> sorted (map timestamp (filterRollingWeek tz now vehicleCounts))"
  by (simp add: filterRollingWeek_def Let_def sortBy_def)

lemma find_append_first:
  "find P (xs @ ys) = (case find P xs of None \<Rightarrow> find P ys | Some x \<Rightarrow> Some x)"
  by (induction xs) auto

section \<open>The processed data\<close>

lemma processIntersection_Inr:
  "processIntersection cfg tk (name, pts) = Inr y \<Longrightarrow>
     fst y = name
     \<and> getLocation (cameraData cfg) name = Inr (location (snd y))
     \<and> getOrganizedCounts (zone cfg) (nowOrganize tk name) pts = Inr (data (snd y))"
  by (auto simp add: processIntersection_def split: sum.splits)

lemma sortedPairs_keys_distinct: "distinct (map fst (sortBy (toPairs (groupBy xs f)) fst))"
proof -
  have "mset (map fst (sortBy (toPairs (groupBy xs f)) fst)) = mset (map fst (groupBy xs f))"
    by (simp add: sortBy_def toPairs_def)
  then show ?thesis
    using groupBy_keys_distinct [of xs f] by (metis mset_eq_imp_distinct_iff)
qed

lemma list_all2_filter:
  "list_all2 R xs ys \<Longrightarrow> (\<And>x y. R x y \<Longrightarrow> P x = Q y) \<Longrightarrow>
     list_all2 R (filter P xs) (filter Q ys)"
  by (induction rule: list_all2_induct) auto

text \<open>
  When \<open>processData\<close> returns, its result lists the intersections of the rolling week
  by name (but the name \<open>__proto__\<close>), each with its location and with what
  \<open>getOrganizedCounts\<close> returns for the quantized points of that intersection.
\<close>

lemma processData_Inr:
  assumes "processData cfg tk rollingWeek = Inr snap"
  shows "list_all2
           (\<lambda>(name, pts) (name', agg). name' = name
               \<and> getLocation (cameraData cfg) name = Inr (location agg)
               \<and> getOrganizedCounts (zone cfg) (nowOrganize tk name) pts = Inr (data agg))
           (filter (\<lambda>p. fst p \<noteq> ''__proto__'')
              (sortBy (toPairs (groupBy (quantize rollingWeek) intersection)) fst)) snap"
proof -
  let ?sp = "sortBy (toPairs (groupBy (quantize rollingWeek) intersection)) fst"
  from assms obtain processed where m: "mapE (processIntersection cfg tk) ?sp = Inr processed"
    and snap: "snap = fromPairs processed"
    by (auto simp add: processData_def Let_def split: sum.splits)
  from m have l: "list_all2 (\<lambda>x y. processIntersection cfg tk x = Inr y) ?sp processed"
    by (rule mapE_Inr_D)
  have r: "list_all2
           (\<lambda>(name, pts) (name', agg). name' = name
               \<and> getLocation (cameraData cfg) name = Inr (location agg)
               \<and> getOrganizedCounts (zone cfg) (nowOrganize tk name) pts = Inr (data agg))
           ?sp processed"
  proof (rule list_all2_mono [OF l])
    fix x y
    assume "processIntersection cfg tk x = Inr y"
    then show "(case x of (name, pts) \<Rightarrow> \<lambda>(name', agg). name' = name
               \<and> getLocation (cameraData cfg) name = Inr (location agg)
               \<and> getOrganizedCounts (zone cfg) (nowOrganize tk name) pts = Inr (data agg)) y"
      using processIntersection_Inr [of cfg tk "fst x" "snd x" y]
      by (simp add: case_prod_unfold)
  qed
  then have "list_all2 (\<lambda>x y. fst x = fst y) ?sp processed"
    by (rule list_all2_mono) (auto simp: case_prod_unfold)
  then have "map fst ?sp = map fst processed"
    by (induction rule: list_all2_induct) auto
  then have "distinct (map fst processed)"
    using sortedPairs_keys_distinct [of "quantize rollingWeek" intersection] by simp
  then have "fromPairs processed = filter (\<lambda>p. fst p \<noteq> ''__proto__'') processed"
    by (rule fromPairs_filter)
  moreover have "list_all2
           (\<lambda>(name, pts) (name', agg). name' = name
               \<and> getLocation (cameraData cfg) name = Inr (location agg)
               \<and> getOrganizedCounts (zone cfg) (nowOrganize tk name) pts = Inr (data agg))
           (filter (\<lambda>p. fst p \<noteq> ''__proto__'') ?sp)
           (filter (\<lambda>p. fst p \<noteq> ''__proto__'') processed)"
    by (rule list_all2_filter [OF r]) (simp add: case_prod_unfold)
  ultimately show ?thesis using snap by simp
qed

lemma list_all2_in_set2: "list_all2 P xs ys \<Longrightarrow> y \<in> set ys \<Longrightarrow> \<exists>x\<in>set xs. P x y"
  by (induction rule: list_all2_induct) auto

lemma processData_member:
  assumes "processData cfg tk rollingWeek = Inr snap" and "(name, agg) \<in> set snap"
  shows "getOrganizedCounts (zone cfg) (nowOrganize tk name)
           (filter (\<lambda>p. intersection p = name) (quantize rollingWeek)) = Inr (data agg)
         \<and> getLocation (cameraData cfg) name = Inr (location agg)
         \<and> name \<in> intersection ` set (quantize rollingWeek)"
proof -
  let ?sp = "sortBy (toPairs (groupBy (quantize rollingWeek) intersection)) fst"
  have "\<exists>x\<in>set (filter (\<lambda>p. fst p \<noteq> ''__proto__'') ?sp).
              (case x of (name', pts) \<Rightarrow> \<lambda>(name'', agg'). name'' = name'
               \<and> getLocation (cameraData cfg) name' = Inr (location agg')
               \<and> getOrganizedCounts (zone cfg) (nowOrganize tk name') pts = Inr (data agg'))
              (name, agg)"
    using processData_Inr [OF assms(1)] assms(2) by (rule list_all2_in_set2)
  then obtain x where x: "x \<in> set ?sp"
    and rel: "(case x of (name', pts) \<Rightarrow> \<lambda>(name'', agg'). name'' = name'
               \<and> getLocation (cameraData cfg) name' = Inr (location agg')
               \<and> getOrganizedCounts (zone cfg) (nowOrganize tk name') pts = Inr (data agg'))
              (name, agg)"
    by auto
  obtain n pts where xp: "x = (n, pts)" by (cases x)
  from x xp have "(n, pts) \<in> set (groupBy (quantize rollingWeek) intersection)"
    by (simp add: sortBy_def toPairs_def)
  then have "n \<in> intersection ` set (quantize rollingWeek)"
    and "pts = filter (\<lambda>p. intersection p = n) (quantize rollingWeek)"
    by (simp_all add: groupBy_member)
  with rel xp show ?thesis by simp
qed

lemma processData_complete:
  assumes "processData cfg tk rollingWeek = Inr snap"
  shows "completeSnapshot snap"
  unfolding completeSnapshot_def list_all_iff
proof
  fix x assume x: "x \<in> set snap"
  obtain name agg where xp: "x = (name, agg)" by (cases x)
  from processData_member [OF assms] x xp
  have "getOrganizedCounts (zone cfg) (nowOrganize tk name)
           (filter (\<lambda>p. intersection p = name) (quantize rollingWeek)) = Inr (data agg)"
    by simp
  then have "completeDays (data agg)" by (simp add: getOrganizedCounts_Inr)
  with xp show "case x of (name, agg) \<Rightarrow> completeDays (data agg)" by simp
qed

lemma processData_Inl:
  assumes "(name, pts) \<in> set (groupBy (quantize rollingWeek) intersection)"
    and "getOrganizedCounts (zone cfg) (nowOrganize tk name) pts = Inl e"
  shows "\<exists>e'. processData cfg tk rollingWeek = Inl e'"
proof -
  let ?sp = "sortBy (toPairs (groupBy (quantize rollingWeek) intersection)) fst"
  have "(name, pts) \<in> set ?sp" using assms(1) by (simp add: sortBy_def toPairs_def)
  moreover have "\<exists>e'. processIntersection cfg tk (name, pts) = Inl e'"
    using assms(2) by (simp add: processIntersection_def split: sum.splits)
  ultimately have "\<exists>e'. mapE (processIntersection cfg tk) ?sp = Inl e'"
    unfolding mapE_Inl by blast
  then show ?thesis by (auto simp add: processData_def Let_def)
qed

section \<open>One run of the cycle\<close>

lemma fetchAndCacheRecords_Inl:
  "fetchAndCacheRecords cfg tk s = (Inl e, s') \<longleftrightarrow>
     collection tk = Inl e \<and> s' = s\<lparr>timeLastFetched := newDate tk\<rparr>"
  by (auto simp add: fetchAndCacheRecords_def find_gt_def Let_def split: sum.splits)

lemma fetchAndCacheRecords_Inr:
  "fetchAndCacheRecords cfg tk s = (Inr rollingWeek, s') \<longleftrightarrow>
     (\<exists>docs. collection tk = Inr docs
        \<and> rollingWeek =
            filterRollingWeek (zone cfg) (nowFilter tk)
              (uniqBy ((case VEHICLE_COUNTS s of None \<Rightarrow> [] | Some c \<Rightarrow> c)
                       @ filter (\<lambda>d. timestamp d > timeLastFetched s) docs) hexId)
        \<and> s' = s\<lparr>timeLastFetched := newDate tk, VEHICLE_COUNTS := Some rollingWeek\<rparr>)"
  by (auto simp add: fetchAndCacheRecords_def find_gt_def Let_def split: sum.splits)

lemma cycle_Inl:
  "fetchProcessAndCacheNewData cfg tk s = (Inl e, s') \<Longrightarrow> PROCESSED_DATA s' = PROCESSED_DATA s"
  by (auto simp add: fetchProcessAndCacheNewData_def processAndCacheData_def
      fetchAndCacheRecords_Inl fetchAndCacheRecords_Inr split: sum.splits prod.splits)

lemma cycle_Inr:
  "fetchProcessAndCacheNewData cfg tk s = (Inr u, s') \<Longrightarrow>
     \<exists>rollingWeek s1 snap.
        fetchAndCacheRecords cfg tk s = (Inr rollingWeek, s1)
        \<and> processData cfg tk rollingWeek = Inr snap
        \<and> s' = s1\<lparr>PROCESSED_DATA := Some snap\<rparr>"
  by (auto simp add: fetchProcessAndCacheNewData_def processAndCacheData_def
      split: sum.splits prod.splits)

lemma cycle_complete:
  "completeSnapshot (served s) \<Longrightarrow>
     completeSnapshot (served (snd (fetchProcessAndCacheNewData cfg tk s)))"
proof -
  assume c: "completeSnapshot (served s)"
  obtain r s' where rs: "fetchProcessAndCacheNewData cfg tk s = (r, s')"
    by (cases "fetchProcessAndCacheNewData cfg tk s")
  show ?thesis
  proof (cases r)
    case (Inl e)
    with rs have "PROCESSED_DATA s' = PROCESSED_DATA s" by (simp add: cycle_Inl)
    with c rs show ?thesis by (simp add: served_def)
  next
    case (Inr u)
    with rs obtain rollingWeek s1 snap where "processData cfg tk rollingWeek = Inr snap"
      and "s' = s1\<lparr>PROCESSED_DATA := Some snap\<rparr>"
      using cycle_Inr [of cfg tk s u s'] by auto
    then show ?thesis using rs by (simp add: served_def processData_complete)
  qed
qed

lemma reachable_complete: "reachable cfg s \<Longrightarrow> completeSnapshot (served s)"
proof (induction rule: reachable.induct)
  case (start now)
  then show ?case by (simp add: served_def initialState_def completeSnapshot_def)
next
  case (cycle s tk)
  then show ?case by (simp add: cycle_complete)
qed

lemma cycle_unfold:
  "fetchProcessAndCacheNewData cfg tk s =
     (case collection tk of
        Inl e \<Rightarrow> (Inl e, s\<lparr>timeLastFetched := newDate tk\<rparr>)
      | Inr docs \<Rightarrow>
          (let rollingWeek =
                 filterRollingWeek (zone cfg) (nowFilter tk)
                   (uniqBy ((case VEHICLE_COUNTS s of None \<Rightarrow> [] | Some c \<Rightarrow> c)
                            @ filter (\<lambda>d. timestamp d > timeLastFetched s) docs) hexId);
               s1 = s\<lparr>timeLastFetched := newDate tk, VEHICLE_COUNTS := Some rollingWeek\<rparr>
           in case processData cfg tk rollingWeek of
                Inl e \<Rightarrow> (Inl e, s1)
              | Inr snap \<Rightarrow> (Inr (), s1\<lparr>PROCESSED_DATA := Some snap\<rparr>)))"
  by (simp add: fetchProcessAndCacheNewData_def processAndCacheData_def fetchAndCacheRecords_def
      find_gt_def Let_def split: sum.splits)

text \<open>
  Claim C10. When the store answers and the aggregation throws (the length check or
  the location lookup), the run ends with the caught error in the state the fetch
  stage left: the watermark is the clock read before the query, the cached window is
  the merged and pruned record list, and the processed data are the ones of before.
\<close>

theorem aggregation_failure_after_fetch_commit:
  assumes "collection tk = Inr docs"
    and "rollingWeek =
           filterRollingWeek (zone cfg) (nowFilter tk)
             (uniqBy ((case VEHICLE_COUNTS s of None \<Rightarrow> [] | Some c \<Rightarrow> c)
                      @ filter (\<lambda>d. timestamp d > timeLastFetched s) docs) hexId)"
    and "processData cfg tk rollingWeek = Inl e"
    and "fetchProcessAndCacheNewData cfg tk s = (r, s')"
  shows "r = Inl e
         \<and> fetchAndCacheRecords cfg tk s
             = (Inr rollingWeek, s\<lparr>timeLastFetched := newDate tk, VEHICLE_COUNTS := Some rollingWeek\<rparr>)
         \<and> timeLastFetched s' = newDate tk
         \<and> VEHICLE_COUNTS s' = Some rollingWeek
         \<and> PROCESSED_DATA s' = PROCESSED_DATA s"
proof -
  have f: "fetchAndCacheRecords cfg tk s
             = (Inr rollingWeek, s\<lparr>timeLastFetched := newDate tk, VEHICLE_COUNTS := Some rollingWeek\<rparr>)"
    using assms(1,2) by (simp add: fetchAndCacheRecords_Inr)
  have "fetchProcessAndCacheNewData cfg tk s
          = (Inl e, s\<lparr>timeLastFetched := newDate tk, VEHICLE_COUNTS := Some rollingWeek\<rparr>)"
    using assms(3) by (simp add: fetchProcessAndCacheNewData_def f processAndCacheData_def)
  with assms(4) f show ?thesis by auto
qed

text \<open>
  Claim C1. In every state the process reaches, every day but the last of every
  intersection of the processed data has exactly 96 counts. And a run in which the
  store answers and the days of some intersection, as grouped before the check,
  have a day other than the last with a number of counts other than 96, ends with
  an error and leaves the processed data as they were.
\<close>

theorem published_days_complete:
  "(reachable cfg s \<and> PROCESSED_DATA s = Some snap \<and> (name, agg) \<in> set snap
      \<and> (day, cs) \<in> set (butlast (data agg)) \<longrightarrow> length cs = 96)
   \<and> (fetchAndCacheRecords cfg tk s0 = (Inr rollingWeek, s1)
        \<and> (name', pts) \<in> set (groupBy (quantize rollingWeek) intersection)
        \<and> (day', cs') \<in> set (butlast (compactCountsOf (zone cfg)
                                 (sortedCountsOf (zone cfg) (nowOrganize tk name') pts)))
        \<and> length cs' \<noteq> 96 \<longrightarrow>
        (\<exists>e. fetchProcessAndCacheNewData cfg tk s0 = (Inl e, s1))
        \<and> PROCESSED_DATA s1 = PROCESSED_DATA s0)"
proof (intro conjI impI)
  assume a: "reachable cfg s \<and> PROCESSED_DATA s = Some snap \<and> (name, agg) \<in> set snap
      \<and> (day, cs) \<in> set (butlast (data agg))"
  then have "completeSnapshot snap"
    using reachable_complete [of cfg s] by (simp add: served_def)
  with a have "completeDays (data agg)"
    by (auto simp add: completeSnapshot_def list_all_iff)
  with a show "length cs = 96"
    by (auto simp add: completeDays_def list_all_iff)
next
  assume a: "fetchAndCacheRecords cfg tk s0 = (Inr rollingWeek, s1)
        \<and> (name', pts) \<in> set (groupBy (quantize rollingWeek) intersection)
        \<and> (day', cs') \<in> set (butlast (compactCountsOf (zone cfg)
                                 (sortedCountsOf (zone cfg) (nowOrganize tk name') pts)))
        \<and> length cs' \<noteq> 96"
  then have "\<not> completeDays (compactCountsOf (zone cfg)
                                 (sortedCountsOf (zone cfg) (nowOrganize tk name') pts))"
    by (auto simp add: completeDays_def list_all_iff)
  then have "getOrganizedCounts (zone cfg) (nowOrganize tk name') pts = Inl LengthCheckFailed"
    by (simp add: getOrganizedCounts_sortedCounts getCountsByDay_compactCounts)
  with a obtain e where e: "processData cfg tk rollingWeek = Inl e"
    using processData_Inl [of name' pts rollingWeek cfg tk] by blast
  with a show "\<exists>e. fetchProcessAndCacheNewData cfg tk s0 = (Inl e, s1)"
    by (simp add: fetchProcessAndCacheNewData_def processAndCacheData_def)
  from a show "PROCESSED_DATA s1 = PROCESSED_DATA s0"
    by (auto simp add: fetchAndCacheRecords_Inr)
qed

section \<open>The points of an intersection\<close>




lemma sortedCountsOf_strict: "sorted_wrt (<) (map timestamp (sortedCountsOf tz now pts))"
proof -
  let ?u = "uniqBy
          (map (\<lambda>c. \<lparr>timestamp = timestamp c, vehicleCount = vehicleCount c\<rparr>)
             (filter (\<lambda>c. timestamp c \<ge> max LAUNCH_DAY (getLocalMidnightNDaysAgo tz now 7)) pts))
          timestamp"
  have "distinct (map timestamp ?u)" by (rule uniqBy_distinct)
  then have "distinct (map timestamp (sort_key timestamp ?u))"
    by (simp add: distinct_map)
  then show ?thesis
    by (simp add: strict_sorted_iff sortedCountsOf_def sortBy_def)
qed



lemma sortedCountsOf_timestamps:
  "timestamp ` set (sortedCountsOf tz now pts) =
     timestamp ` {p \<in> set pts. max LAUNCH_DAY (getLocalMidnightNDaysAgo tz now 7) \<le> timestamp p}"
proof -
  let ?m = "map (\<lambda>c. \<lparr>timestamp = timestamp c, vehicleCount = vehicleCount c\<rparr>)
             (filter (\<lambda>c. timestamp c \<ge> max LAUNCH_DAY (getLocalMidnightNDaysAgo tz now 7)) pts)"
  have "timestamp ` set (sortedCountsOf tz now pts) = timestamp ` set ?m"
    by (simp add: sortedCountsOf_def sortBy_def uniqBy_keys)
  also have "\<dots> = timestamp ` {p \<in> set pts. max LAUNCH_DAY (getLocalMidnightNDaysAgo tz now 7) \<le> timestamp p}"
    by (simp add: image_image)
  finally show ?thesis .
qed

lemma groupPush_fresh: "k \<notin> fst ` set ob \<Longrightarrow> groupPush k x ob = ob @ [(k, [x])]"
  by (induction ob) auto

lemma groupBy_snoc:
  "groupBy (xs @ [x]) f = groupPush (f x) x (groupBy xs f)"
  by (simp add: groupBy_def)

lemma groupBy_snoc_fresh:
  "f x \<notin> f ` set xs \<Longrightarrow> groupBy (xs @ [x]) f = groupBy xs f @ [(f x, [x])]"
  by (simp add: groupBy_snoc groupPush_fresh groupBy_keys)

lemma groupBy_const:
  "xs \<noteq> [] \<Longrightarrow> \<forall>x\<in>set xs. f x = k \<Longrightarrow> groupBy xs f = [(k, xs)]"
proof (induction xs rule: rev_induct)
  case Nil
  then show ?case by simp
next
  case (snoc x xs)
  show ?case
  proof (cases "xs = []")
    case True
    with snoc.prems show ?thesis by (simp add: groupBy_def)
  next
    case False
    with snoc have "groupBy xs f = [(k, xs)]" by simp
    with snoc.prems show ?thesis by (simp add: groupBy_snoc)
  qed
qed

text \<open>
  When all the points kept have the same day key, the daily bucket has that one day,
  with as many counts as the points have distinct timestamps.
\<close>

lemma getOrganizedCounts_one_day:
  assumes "pts \<noteq> []"
    and "\<forall>p\<in>set pts. max LAUNCH_DAY (getLocalMidnightNDaysAgo tz now 7) \<le> timestamp p
            \<and> getYYYYMMDDDate tz (timestamp p) = day"
  shows "getOrganizedCounts tz now pts
           = Inr [(day, map vehicleCount (sortedCountsOf tz now pts))]
         \<and> length (sortedCountsOf tz now pts) = card (timestamp ` set pts)"
proof -
  let ?sc = "sortedCountsOf tz now pts"
  let ?cut = "max LAUNCH_DAY (getLocalMidnightNDaysAgo tz now 7)"
  have kept: "{p \<in> set pts. ?cut \<le> timestamp p} = set pts" using assms(2) by auto
  have ts: "timestamp ` set ?sc = timestamp ` set pts"
    by (simp only: sortedCountsOf_timestamps kept)
  have "distinct (map timestamp ?sc)"
    using sortedCountsOf_strict [of tz now pts] by (simp add: strict_sorted_iff)
  then have "card (set (map timestamp ?sc)) = length (map timestamp ?sc)"
    by (rule distinct_card)
  then have len: "length ?sc = card (timestamp ` set pts)" using ts by simp
  have ne: "?sc \<noteq> []"
  proof
    assume "?sc = []"
    then have "timestamp ` set pts = {}" using ts by simp
    with assms(1) show False by simp
  qed
  have keys: "\<forall>c\<in>set ?sc. getYYYYMMDDDate tz (timestamp c) = day"
  proof
    fix c assume "c \<in> set ?sc"
    then have "timestamp c \<in> timestamp ` set pts" using ts by blast
    then show "getYYYYMMDDDate tz (timestamp c) = day" using assms(2) by auto
  qed
  have "groupBy ?sc (\<lambda>c. getYYYYMMDDDate tz (timestamp c)) = [(day, ?sc)]"
    using ne keys by (rule groupBy_const)
  then have "compactCountsOf tz ?sc = [(day, map vehicleCount ?sc)]"
    by (simp add: compactCountsOf_def toPairs_def)
  then have "getOrganizedCounts tz now pts = Inr [(day, map vehicleCount ?sc)]"
    by (simp add: getOrganizedCounts_sortedCounts getCountsByDay_compactCounts completeDays_def)
  with len show ?thesis by simp
qed


section \<open>The cutoff of the aggregation\<close>




section \<open>Local midnight in a zone with one offset\<close>

lemma div_add_small: "0 \<le> r \<Longrightarrow> r < c \<Longrightarrow> (c * a + r) div c = a" for a c r :: int
  by (simp add: div_pos_pos_trivial)

lemma mod_add_small: "0 \<le> r \<Longrightarrow> r < c \<Longrightarrow> (c * a + r) mod c = r" for a c r :: int
  by (simp add: mod_pos_pos_trivial)

lemma components_MakeDate:
  assumes "0 \<le> h" "h < 24" "0 \<le> m" "m < 60" "0 \<le> s" "s < 60" "0 \<le> milli" "milli < 1000"
  shows "Day (MakeDate d (MakeTime h m s milli)) = d"
    and "HourFromTime (MakeDate d (MakeTime h m s milli)) = h"
    and "MinFromTime (MakeDate d (MakeTime h m s milli)) = m"
    and "SecFromTime (MakeDate d (MakeTime h m s milli)) = s"
    and "msFromTime (MakeDate d (MakeTime h m s milli)) = milli"
proof -
  let ?x = "MakeDate d (MakeTime h m s milli)"
  have x1: "?x = 86400000 * d + (h * 3600000 + m * 60000 + s * 1000 + milli)"
    by (simp add: MakeDate_def MakeTime_def msPerDay_def)
  have x2: "?x = 3600000 * (24 * d + h) + (m * 60000 + s * 1000 + milli)"
    by (simp add: MakeDate_def MakeTime_def msPerDay_def)
  have x3: "?x = 60000 * (60 * (24 * d + h) + m) + (s * 1000 + milli)"
    by (simp add: MakeDate_def MakeTime_def msPerDay_def)
  have x4: "?x = 1000 * (60 * (60 * (24 * d + h) + m) + s) + milli"
    by (simp add: MakeDate_def MakeTime_def msPerDay_def)
  have "?x div 86400000 = d"
    unfolding x1 using assms by (intro div_add_small) linarith+
  then show "Day ?x = d" by (simp add: Day_def msPerDay_def)
  have q2: "?x div 3600000 = 24 * d + h"
    unfolding x2 using assms by (intro div_add_small) linarith+
  have "(24 * d + h) mod 24 = h"
    using assms by (intro mod_add_small)
  with q2 show "HourFromTime ?x = h"
    unfolding HourFromTime_def by (simp only:)
  have q3: "?x div 60000 = 60 * (24 * d + h) + m"
    unfolding x3 using assms by (intro div_add_small) linarith+
  have "(60 * (24 * d + h) + m) mod 60 = m"
    using assms by (intro mod_add_small)
  with q3 show "MinFromTime ?x = m"
    unfolding MinFromTime_def by (simp only:)
  have q4: "?x div 1000 = 60 * (60 * (24 * d + h) + m) + s"
    unfolding x4 using assms by (intro div_add_small) linarith+
  have "(60 * (60 * (24 * d + h) + m) + s) mod 60 = s"
    using assms by (intro mod_add_small)
  with q4 show "SecFromTime ?x = s"
    unfolding SecFromTime_def by (simp only:)
  show "msFromTime ?x = milli"
    unfolding x4 msFromTime_def using assms by (intro mod_add_small) linarith+
qed

lemma LocalTime_UTC_fixed: "LocalTime (fixedZone off) (UTC (fixedZone off) t) = t"
  by (simp add: LocalTime_def UTC_def fixedZone_def)

text \<open>
  In a zone with one offset, \<open>getLocalMidnightNDaysAgo\<close> returns the instant at which
  the local day of the instant \<open>n\<close> days before \<open>now\<close> began.
\<close>

lemma getLocalMidnightNDaysAgo_fixed:
  "getLocalMidnightNDaysAgo (fixedZone off) now n =
     Day (now - n * 86400000 + off) * msPerDay - off"
proof -
  let ?z = "fixedZone off"
  define t0 where "t0 = now - n * 24 * 60 * 60 * 1000"
  define l0 where "l0 = LocalTime ?z t0"
  define d where "d = Day l0"
  define m0 s0 ms0 where "m0 = MinFromTime l0" and "s0 = SecFromTime l0" and "ms0 = msFromTime l0"
  have b: "0 \<le> m0" "m0 < 60" "0 \<le> s0" "s0 < 60" "0 \<le> ms0" "ms0 < 1000"
    by (simp_all add: m0_def s0_def ms0_def MinFromTime_def SecFromTime_def msFromTime_def)
  define t1 where "t1 = setHours ?z 0 t0"
  define t2 where "t2 = setMinutes ?z 0 t1"
  define t3 where "t3 = setSeconds ?z 0 t2"
  define t4 where "t4 = setMilliseconds ?z 0 t3"
  have l1: "LocalTime ?z t1 = MakeDate d (MakeTime 0 m0 s0 ms0)"
    by (simp add: t1_def setHours_def Let_def LocalTime_UTC_fixed l0_def d_def m0_def s0_def ms0_def)
  have l2: "LocalTime ?z t2 = MakeDate d (MakeTime 0 0 s0 ms0)"
    using b by (simp add: t2_def setMinutes_def Let_def LocalTime_UTC_fixed l1 components_MakeDate)
  have l3: "LocalTime ?z t3 = MakeDate d (MakeTime 0 0 0 ms0)"
    using b by (simp add: t3_def setSeconds_def Let_def LocalTime_UTC_fixed l2 components_MakeDate)
  have l4: "LocalTime ?z t4 = MakeDate d (MakeTime 0 0 0 0)"
    using b by (simp add: t4_def setMilliseconds_def Let_def LocalTime_UTC_fixed l3 components_MakeDate)
  have "t4 = d * msPerDay - off"
    using l4 by (simp add: LocalTime_def fixedZone_def MakeDate_def MakeTime_def)
  moreover have "getLocalMidnightNDaysAgo ?z now n = t4"
    by (simp add: getLocalMidnightNDaysAgo_def Let_def t4_def t3_def t2_def t1_def t0_def)
  moreover have "d = Day (now - n * 86400000 + off)"
    by (simp add: d_def l0_def t0_def LocalTime_def fixedZone_def mult.commute)
  ultimately show ?thesis by simp
qed

lemma midnight_noonDec31: "getLocalMidnightNDaysAgo pacific noonDec31 7 = 1703404800000"
  by (simp add: pacific_def getLocalMidnightNDaysAgo_fixed noonDec31_def ONE_HOUR_MS_def
      Day_def msPerDay_def)

lemma midnight_noonJan12: "getLocalMidnightNDaysAgo pacific noonJan12 7 = 1704441600000"
  by (simp add: pacific_def getLocalMidnightNDaysAgo_fixed noonJan12_def ONE_HOUR_MS_def
      Day_def msPerDay_def)

section \<open>Runs with one intersection\<close>


lemma processData_one_name:
  assumes "rollingWeek \<noteq> []" and "\<forall>d\<in>set rollingWeek. intersection d = name"
  shows "processData cfg tk rollingWeek =
           (case getLocation (cameraData cfg) name of
              Inl e \<Rightarrow> Inl e
            | Inr loc \<Rightarrow>
               (case getOrganizedCounts (zone cfg) (nowOrganize tk name) (quantize rollingWeek) of
                  Inl e \<Rightarrow> Inl e
                | Inr counts \<Rightarrow>
                   Inr (if name = ''__proto__'' then []
                        else [(name, \<lparr>location = loc, data = counts\<rparr>)])))"
proof -
  have "quantize rollingWeek \<noteq> []" using assms(1) by (simp add: quantize_def)
  moreover have "\<forall>p\<in>set (quantize rollingWeek). intersection p = name"
    using assms(2) by (simp add: quantize_def)
  ultimately have "groupBy (quantize rollingWeek) intersection = [(name, quantize rollingWeek)]"
    by (rule groupBy_const)
  then show ?thesis
    by (simp add: processData_def Let_def toPairs_def sortBy_def processIntersection_def
        fromPairs_def split: sum.splits)
qed

lemma processData_single:
  assumes "rollingWeek \<noteq> []" and "\<forall>d\<in>set rollingWeek. intersection d = name"
    and "cameraData cfg name = Some loc" and "name \<noteq> ''__proto__''"
  shows "processData cfg tk rollingWeek =
           (case getOrganizedCounts (zone cfg) (nowOrganize tk name) (quantize rollingWeek) of
              Inl e \<Rightarrow> Inl e
            | Inr counts \<Rightarrow> Inr [(name, \<lparr>location = Some loc, data = counts\<rparr>)])"
  using assms(3,4)
  by (simp add: processData_one_name [OF assms(1,2)] getLocation_def split: sum.splits)

lemma sortedCountsOf_ordered:
  assumes "\<forall>p\<in>set pts. max LAUNCH_DAY (getLocalMidnightNDaysAgo tz now 7) \<le> timestamp p"
    and "sorted_wrt (<) (map timestamp pts)"
  shows "sortedCountsOf tz now pts
           = map (\<lambda>c. \<lparr>timestamp = timestamp c, vehicleCount = vehicleCount c\<rparr>) pts"
proof -
  let ?m = "map (\<lambda>c. \<lparr>timestamp = timestamp c, vehicleCount = vehicleCount c\<rparr>) pts"
  have f: "filter (\<lambda>c. max LAUNCH_DAY (getLocalMidnightNDaysAgo tz now 7) \<le> timestamp c) pts = pts"
    using assms(1) by (intro filter_True) simp
  have ts: "map timestamp ?m = map timestamp pts" by simp
  have "distinct (map timestamp ?m)" "sorted (map timestamp ?m)"
    using assms(2) unfolding ts by (simp_all add: strict_sorted_iff)
  then have "uniqBy ?m timestamp = ?m" "sort_key timestamp ?m = ?m"
    by (simp_all add: uniqBy_id sort_key_id_if_sorted)
  then show ?thesis
    unfolding sortedCountsOf_def sortBy_def f by simp
qed

lemma groupBy_two:
  assumes "as \<noteq> []" and "\<forall>x\<in>set as. f x = k1" and "k1 \<noteq> k2"
  shows "bs \<noteq> [] \<Longrightarrow> \<forall>x\<in>set bs. f x = k2 \<Longrightarrow> groupBy (as @ bs) f = [(k1, as), (k2, bs)]"
proof (induction bs rule: rev_induct)
  case Nil
  then show ?case by simp
next
  case (snoc b bs)
  have a: "groupBy as f = [(k1, as)]" using assms(1,2) by (rule groupBy_const)
  show ?case
  proof (cases "bs = []")
    case True
    with snoc.prems a assms(3) show ?thesis
      using groupBy_snoc [of as b f] by simp
  next
    case False
    with snoc have "groupBy (as @ bs) f = [(k1, as), (k2, bs)]" by simp
    with snoc.prems assms(3) show ?thesis
      using groupBy_snoc [of "as @ bs" b f] by simp
  qed
qed

text \<open>
  Points in strictly ascending order that pass the cutoff and fall on two local days:
  the length check passes exactly when the first day has 96 of them.
\<close>

lemma getOrganizedCounts_two_days:
  assumes "xs \<noteq> []" and "ys \<noteq> []"
    and "\<forall>p\<in>set (xs @ ys). max LAUNCH_DAY (getLocalMidnightNDaysAgo tz now 7) \<le> timestamp p"
    and "sorted_wrt (<) (map timestamp (xs @ ys))"
    and "\<forall>p\<in>set xs. getYYYYMMDDDate tz (timestamp p) = d1"
    and "\<forall>p\<in>set ys. getYYYYMMDDDate tz (timestamp p) = d2"
    and "d1 \<noteq> d2"
  shows "compactCountsOf tz (sortedCountsOf tz now (xs @ ys))
           = [(d1, map vehicleCount xs), (d2, map vehicleCount ys)]"
    and "getOrganizedCounts tz now (xs @ ys) =
           (if length xs = 96 then Inr [(d1, map vehicleCount xs), (d2, map vehicleCount ys)]
            else Inl LengthCheckFailed)"
proof -
  let ?pick = "\<lambda>c. \<lparr>timestamp = timestamp c, vehicleCount = vehicleCount c\<rparr>"
  let ?key = "\<lambda>c. getYYYYMMDDDate tz (timestamp c)"
  have sc: "sortedCountsOf tz now (xs @ ys) = map ?pick xs @ map ?pick ys"
    using sortedCountsOf_ordered [OF assms(3,4)] by simp
  have "groupBy (map ?pick xs @ map ?pick ys) ?key = [(d1, map ?pick xs), (d2, map ?pick ys)]"
    using assms(1,2,5,6,7) by (intro groupBy_two) simp_all
  then show c: "compactCountsOf tz (sortedCountsOf tz now (xs @ ys))
           = [(d1, map vehicleCount xs), (d2, map vehicleCount ys)]"
    by (simp add: compactCountsOf_def toPairs_def sc comp_def)
  show "getOrganizedCounts tz now (xs @ ys) =
           (if length xs = 96 then Inr [(d1, map vehicleCount xs), (d2, map vehicleCount ys)]
            else Inl LengthCheckFailed)"
    by (simp add: getOrganizedCounts_sortedCounts getCountsByDay_compactCounts c completeDays_def)
qed

lemma fetchAndCacheRecords_fresh:
  assumes "collection tk = Inr docs" and "VEHICLE_COUNTS s = None"
    and "\<forall>d\<in>set docs. timeLastFetched s < timestamp d
           \<and> getLocalMidnightNDaysAgo (zone cfg) (nowFilter tk) 7 - ONE_HOUR_MS \<le> timestamp d"
    and "distinct (map hexId docs)" and "sorted (map timestamp docs)"
  shows "fetchAndCacheRecords cfg tk s
           = (Inr docs, s\<lparr>timeLastFetched := newDate tk, VEHICLE_COUNTS := Some docs\<rparr>)"
proof -
  have "filter (\<lambda>d. timeLastFetched s < timestamp d) docs = docs"
    using assms(3) by (intro filter_True) simp
  moreover have "uniqBy docs hexId = docs" using assms(4) by (rule uniqBy_id)
  moreover have "filter (\<lambda>d. getLocalMidnightNDaysAgo (zone cfg) (nowFilter tk) 7 - ONE_HOUR_MS
                          \<le> timestamp d) docs = docs"
    using assms(3) by (intro filter_True) simp
  moreover have "sort_key timestamp docs = docs" using assms(5) by (rule sort_key_id_if_sorted)
  ultimately have "filterRollingWeek (zone cfg) (nowFilter tk)
      (uniqBy ((case VEHICLE_COUNTS s of None \<Rightarrow> [] | Some c \<Rightarrow> c)
                       @ filter (\<lambda>d. timestamp d > timeLastFetched s) docs) hexId) = docs"
    using assms(2) by (simp add: filterRollingWeek_def sortBy_def Let_def)
  then show ?thesis using assms(1) by (simp add: fetchAndCacheRecords_Inr)
qed

section \<open>Day keys\<close>

lemmas dayKey_defs = getYYYYMMDDDate_def getFullYear_def getMonth_def getDate_def
  YearFromTime_def MonthFromTime_def DateFromTime_def DayWithinYear_def InLeapYear_def
  YearFromDay_def DayFromYear_def DaysInYear_def toString_def Let_def

lemma dayKey_2023_12_30: "Day (LocalTime tz t) = 19721 \<Longrightarrow> getYYYYMMDDDate tz t = ''2023-12-30''"
  by (simp add: dayKey_defs)

lemma dayKey_2023_12_31: "Day (LocalTime tz t) = 19722 \<Longrightarrow> getYYYYMMDDDate tz t = ''2023-12-31''"
  by (simp add: dayKey_defs)

lemma dayKey_2024_1_10: "Day (LocalTime tz t) = 19732 \<Longrightarrow> getYYYYMMDDDate tz t = ''2024-1-10''"
  by (simp add: dayKey_defs)

lemma dayKey_2024_1_11: "Day (LocalTime tz t) = 19733 \<Longrightarrow> getYYYYMMDDDate tz t = ''2024-1-11''"
  by (simp add: dayKey_defs)

lemma dayKey_2024_1_12: "Day (LocalTime tz t) = 19734 \<Longrightarrow> getYYYYMMDDDate tz t = ''2024-1-12''"
  by (simp add: dayKey_defs)

lemma Day_pacific: "Day (LocalTime pacific t) = (t - 28800000) div 86400000"
  by (simp add: Day_def LocalTime_def pacific_def fixedZone_def ONE_HOUR_MS_def msPerDay_def)


section \<open>The example day\<close>

lemma round_slot:
  "0 \<le> r \<Longrightarrow> r < 450000 \<Longrightarrow>
     roundToNearestQuarterHour (1704873600000 + int k * 900000 + r) = 1704873600000 + int k * 900000"
proof -
  assume r: "0 \<le> r" "r < 450000"
  have e: "1704873600000 + int k * 900000 + r + 450000 = 900000 * (1894304 + int k) + (r + 450000)"
    by simp
  have "(900000 * (1894304 + int k) + (r + 450000)) div 900000 = 1894304 + int k"
  proof (rule div_add_small)
    show "0 \<le> r + 450000" using r by simp
    show "r + 450000 < 900000" using r by simp
  qed
  then have "(1704873600000 + int k * 900000 + r + 450000) div 900000 = 1894304 + int k"
    by (simp only: e)
  then show ?thesis by (simp add: roundToNearestQuarterHour_div)
qed

lemma quantize_mkDoc:
  "quantize (map mkDoc ks) =
     map (\<lambda>k. \<lparr>timestamp = 1704873600000 + int k * 900000, vehicleCount = int k,
                intersection = ''Main&1st''\<rparr>) ks"
  using round_slot [of 1000] by (simp add: quantize_def mkDoc_def)


lemma day_of_slot:
  "k < 96 \<Longrightarrow> getYYYYMMDDDate pacific (1704873600000 + int k * 900000) = ''2024-1-10''"
proof -
  assume k: "k < 96"
  have e: "1704873600000 + int k * 900000 - 28800000 = 86400000 * 19732 + int k * 900000"
    by simp
  have "(86400000 * 19732 + int k * 900000) div 86400000 = 19732"
  proof (rule div_add_small)
    show "0 \<le> int k * 900000" by simp
    show "int k * 900000 < 86400000" using k by simp
  qed
  then have "(1704873600000 + int k * 900000 - 28800000) div 86400000 = 19732"
    by (simp only: e)
  then show ?thesis by (intro dayKey_2024_1_10) (simp add: Day_pacific)
qed

lemma day_of_slot_96:
  "getYYYYMMDDDate pacific (1704873600000 + int 96 * 900000) = ''2024-1-11''"
  by (intro dayKey_2024_1_11) (simp add: Day_pacific)

lemma slots_ascending:
  "sorted_wrt (<) (map (\<lambda>k. 1704873600000 + int k * 900000 + c) [0..<n])"
  by (simp add: sorted_wrt_map sorted_wrt_mono_rel [OF _ sorted_wrt_upt])

lemma hexDigits_inj:
  "i < 16 \<Longrightarrow> j < 16 \<Longrightarrow> hexDigits ! i = hexDigits ! j \<Longrightarrow> i = j"
proof -
  have "distinct hexDigits" "length hexDigits = 16" by (simp_all add: hexDigits_def)
  then show "i < 16 \<Longrightarrow> j < 16 \<Longrightarrow> hexDigits ! i = hexDigits ! j \<Longrightarrow> i = j"
    by (simp add: nth_eq_iff_index_eq)
qed

lemma mkDoc_ids_distinct: "n \<le> 256 \<Longrightarrow> distinct (map hexId (map mkDoc [0..<n]))"
proof -
  assume n: "n \<le> 256"
  have "inj_on (\<lambda>k. hexId (mkDoc k)) {0..<n}"
  proof (rule inj_onI)
    fix i j assume i: "i \<in> {0..<n}" and j: "j \<in> {0..<n}"
      and e: "hexId (mkDoc i) = hexId (mkDoc j)"
    from i j n have b: "i div 16 < 16" "j div 16 < 16" "i mod 16 < 16" "j mod 16 < 16"
      by auto
    from e have "hexDigits ! (i div 16) = hexDigits ! (j div 16)"
      and "hexDigits ! (i mod 16) = hexDigits ! (j mod 16)"
      by (simp_all add: mkDoc_def)
    with b have "i div 16 = j div 16" "i mod 16 = j mod 16"
      by (auto intro: hexDigits_inj)
    then show "i = j" by (metis div_mult_mod_eq)
  qed
  then show ?thesis by (simp add: distinct_map comp_def)
qed

lemma example_organized_counts:
  "getOrganizedCounts pacific noonJan12 (quantize (map mkDoc [0..<97]))
     = Inr [(''2024-1-10'', map int [0..<96]), (''2024-1-11'', [96])]"
proof -
  let ?P = "\<lambda>k. \<lparr>timestamp = 1704873600000 + int k * 900000, vehicleCount = int k,
                intersection = ''Main&1st''\<rparr>"
  have u: "[0..<97] = [0..<96] @ [96]" using upt_Suc_append [of 0 96] by simp
  have q: "quantize (map mkDoc [0..<97]) = map ?P [0..<96] @ [?P 96]"
    unfolding quantize_mkDoc u by simp
  have s: "sorted_wrt (<) (map timestamp (map ?P [0..<96] @ [?P 96]))"
    using slots_ascending [of 0 97] unfolding u by (simp add: comp_def)
  have "getOrganizedCounts pacific noonJan12 (map ?P [0..<96] @ [?P 96]) =
           (if length (map ?P [0..<96]) = 96
            then Inr [(''2024-1-10'', map vehicleCount (map ?P [0..<96])),
                      (''2024-1-11'', map vehicleCount [?P 96])]
            else Inl LengthCheckFailed)"
  proof (rule getOrganizedCounts_two_days(2))
    show "\<forall>p\<in>set (map ?P [0..<96] @ [?P 96]).
            max LAUNCH_DAY (getLocalMidnightNDaysAgo pacific noonJan12 7) \<le> timestamp p"
      by (auto simp add: midnight_noonJan12 LAUNCH_DAY_def)
    show "sorted_wrt (<) (map timestamp (map ?P [0..<96] @ [?P 96]))" by (rule s)
    show "\<forall>p\<in>set (map ?P [0..<96]). getYYYYMMDDDate pacific (timestamp p) = ''2024-1-10''"
      by (auto simp add: day_of_slot)
    show "\<forall>p\<in>set [?P 96]. getYYYYMMDDDate pacific (timestamp p) = ''2024-1-11''"
      using day_of_slot_96 by simp
  qed simp_all
  then show ?thesis unfolding q by (simp add: comp_def)
qed

lemma example_first_run:
  "fetchProcessAndCacheNewData exampleConfig (tickAt noonJan12 (Inr (map mkDoc [0..<97])))
     (initialState pacific noonJan12)
   = (Inr (),
      \<lparr>timeLastFetched = noonJan12,
       VEHICLE_COUNTS = Some (map mkDoc [0..<97]),
       PROCESSED_DATA =
         Some [(''Main&1st'',
                \<lparr>location = Some ''49.2827,-123.1207'',
                 data = [(''2024-1-10'', map int [0..<96]), (''2024-1-11'', [96])]\<rparr>)]\<rparr>)"
proof -
  let ?tk = "tickAt noonJan12 (Inr (map mkDoc [0..<97]))"
  let ?s = "initialState pacific noonJan12 :: string state"
  have w: "timeLastFetched ?s = 1704438000000"
    by (simp add: initialState_def getInitialTimeLastFetched_def midnight_noonJan12
        LAUNCH_DAY_def ONE_HOUR_MS_def)
  have f: "fetchAndCacheRecords exampleConfig ?tk ?s
             = (Inr (map mkDoc [0..<97]),
                ?s\<lparr>timeLastFetched := newDate ?tk, VEHICLE_COUNTS := Some (map mkDoc [0..<97])\<rparr>)"
  proof (rule fetchAndCacheRecords_fresh)
    show "collection ?tk = Inr (map mkDoc [0..<97])" by (simp add: tickAt_def)
    show "VEHICLE_COUNTS ?s = None" by (simp add: initialState_def)
    show "\<forall>d\<in>set (map mkDoc [0..<97]). timeLastFetched ?s < timestamp d
           \<and> getLocalMidnightNDaysAgo (zone exampleConfig) (nowFilter ?tk) 7 - ONE_HOUR_MS
               \<le> timestamp d"
      by (auto simp add: w exampleConfig_def tickAt_def midnight_noonJan12 ONE_HOUR_MS_def mkDoc_def)
    show "distinct (map hexId (map mkDoc [0..<97]))" by (rule mkDoc_ids_distinct) simp
    show "sorted (map timestamp (map mkDoc [0..<97]))"
      using slots_ascending [of 1000 97] by (simp add: strict_sorted_iff comp_def mkDoc_def)
  qed
  have p: "processData exampleConfig ?tk (map mkDoc [0..<97])
             = Inr [(''Main&1st'',
                \<lparr>location = Some ''49.2827,-123.1207'',
                 data = [(''2024-1-10'', map int [0..<96]), (''2024-1-11'', [96])]\<rparr>)]"
  proof -
    have "processData exampleConfig ?tk (map mkDoc [0..<97]) =
           (case getOrganizedCounts (zone exampleConfig) (nowOrganize ?tk ''Main&1st'')
                   (quantize (map mkDoc [0..<97])) of
              Inl e \<Rightarrow> Inl e
            | Inr counts \<Rightarrow> Inr [(''Main&1st'', \<lparr>location = Some ''49.2827,-123.1207'', data = counts\<rparr>)])"
      by (rule processData_single) (simp_all add: mkDoc_def exampleConfig_def)
    then show ?thesis
      using example_organized_counts by (simp add: exampleConfig_def tickAt_def)
  qed
  have "fetchProcessAndCacheNewData exampleConfig ?tk ?s
          = (Inr (),
             ?s\<lparr>timeLastFetched := newDate ?tk, VEHICLE_COUNTS := Some (map mkDoc [0..<97]),
                PROCESSED_DATA :=
                  Some [(''Main&1st'',
                         \<lparr>location = Some ''49.2827,-123.1207'',
                          data = [(''2024-1-10'', map int [0..<96]), (''2024-1-11'', [96])]\<rparr>)]\<rparr>)"
    by (simp add: fetchProcessAndCacheNewData_def f p processAndCacheData_def)
  then show ?thesis
    by (simp add: tickAt_def initialState_def)
qed

section \<open>Small example runs\<close>

lemma getOrganizedCounts_single_point:
  assumes "max LAUNCH_DAY (getLocalMidnightNDaysAgo tz now 7) \<le> timestamp p"
  shows "getOrganizedCounts tz now [p]
           = Inr [(getYYYYMMDDDate tz (timestamp p), [vehicleCount p])]"
proof -
  have "sortedCountsOf tz now [p] = [\<lparr>timestamp = timestamp p, vehicleCount = vehicleCount p\<rparr>]"
    using sortedCountsOf_ordered [of "[p]" tz now] assms by simp
  moreover have "getOrganizedCounts tz now [p]
           = Inr [(getYYYYMMDDDate tz (timestamp p), map vehicleCount (sortedCountsOf tz now [p]))]"
    using getOrganizedCounts_one_day [of "[p]" tz now "getYYYYMMDDDate tz (timestamp p)"] assms
    by simp
  ultimately show ?thesis by simp
qed




lemma quantize_docLate:
  "quantize [docLate]
     = [\<lparr>timestamp = 1704009600000, vehicleCount = 8, intersection = ''Main&1st''\<rparr>]"
  by (simp add: quantize_def docLate_def roundToNearestQuarterHour_div)



text \<open>
  Claim C9. The record read at 23:55:00 of 30 December 2023 local time (23:52:30 is
  85950000 milliseconds into the day) has the day key of 30 December; quantized, it
  has the day key of 31 December, and that is the day its count is put under.
\<close>

theorem quantization_crosses_local_midnight:
  "85950000 \<le> LocalTime pacific (timestamp docLate) mod msPerDay
   \<and> getYYYYMMDDDate pacific (timestamp docLate) = ''2023-12-30''
   \<and> getYYYYMMDDDate pacific (roundToNearestQuarterHour (timestamp docLate)) = ''2023-12-31''
   \<and> getOrganizedCounts pacific noonDec31 (quantize [docLate]) = Inr [(''2023-12-31'', [8])]"
proof -
  let ?q = "\<lparr>timestamp = 1704009600000, vehicleCount = 8, intersection = ''Main&1st''\<rparr>"
  have 1: "85950000 \<le> LocalTime pacific (timestamp docLate) mod msPerDay"
    by (simp add: LocalTime_def pacific_def fixedZone_def docLate_def msPerDay_def ONE_HOUR_MS_def)
  have 2: "getYYYYMMDDDate pacific (timestamp docLate) = ''2023-12-30''"
    by (intro dayKey_2023_12_30) (simp add: Day_pacific docLate_def)
  have r: "roundToNearestQuarterHour (timestamp docLate) = 1704009600000"
    by (simp add: docLate_def roundToNearestQuarterHour_div)
  have k: "getYYYYMMDDDate pacific 1704009600000 = ''2023-12-31''"
    by (intro dayKey_2023_12_31) (simp add: Day_pacific)
  have 4: "getOrganizedCounts pacific noonDec31 (quantize [docLate]) = Inr [(''2023-12-31'', [8])]"
    unfolding quantize_docLate
    using getOrganizedCounts_single_point [of pacific noonDec31 ?q] k
    by (simp add: midnight_noonDec31 LAUNCH_DAY_def)
  from 1 2 r k 4 show ?thesis by simp
qed

section \<open>Example runs that fail, and a run after a failure\<close>

lemma example_short_day:
  "quantize [mkDoc 0, mkDoc 96]
     = [\<lparr>timestamp = 1704873600000, vehicleCount = 0, intersection = ''Main&1st''\<rparr>]
       @ [\<lparr>timestamp = 1704960000000, vehicleCount = 96, intersection = ''Main&1st''\<rparr>]"
  "compactCountsOf pacific (sortedCountsOf pacific noonJan12 (quantize [mkDoc 0, mkDoc 96]))
     = [(''2024-1-10'', [0]), (''2024-1-11'', [96])]"
  "getOrganizedCounts pacific noonJan12 (quantize [mkDoc 0, mkDoc 96]) = Inl LengthCheckFailed"
  "groupBy (quantize [mkDoc 0, mkDoc 96]) intersection
     = [(''Main&1st'', quantize [mkDoc 0, mkDoc 96])]"
  "processData exampleConfig (tickAt noonJan12 (Inr [mkDoc 0, mkDoc 96])) [mkDoc 0, mkDoc 96]
     = Inl LengthCheckFailed"
proof -
  let ?a = "\<lparr>timestamp = 1704873600000, vehicleCount = 0, intersection = ''Main&1st''\<rparr>"
  let ?b = "\<lparr>timestamp = 1704960000000, vehicleCount = 96, intersection = ''Main&1st''\<rparr>"
  let ?tk = "tickAt noonJan12 (Inr [mkDoc 0, mkDoc 96])"
  show q: "quantize [mkDoc 0, mkDoc 96] = [?a] @ [?b]"
    using quantize_mkDoc [of "[0, 96]"] by simp
  have ka: "getYYYYMMDDDate pacific 1704873600000 = ''2024-1-10''"
    using day_of_slot [of 0] by simp
  have kb: "getYYYYMMDDDate pacific 1704960000000 = ''2024-1-11''"
    using day_of_slot_96 by simp
  have c: "\<forall>p\<in>set ([?a] @ [?b]).
             max LAUNCH_DAY (getLocalMidnightNDaysAgo pacific noonJan12 7) \<le> timestamp p"
    by (simp add: midnight_noonJan12 LAUNCH_DAY_def)
  have s: "sorted_wrt (<) (map timestamp ([?a] @ [?b]))" by simp
  show "compactCountsOf pacific (sortedCountsOf pacific noonJan12 (quantize [mkDoc 0, mkDoc 96]))
     = [(''2024-1-10'', [0]), (''2024-1-11'', [96])]"
    unfolding q
    using getOrganizedCounts_two_days(1)
      [of "[?a]" "[?b]" pacific noonJan12 "''2024-1-10''" "''2024-1-11''", OF _ _ c s]
      ka kb
    by simp
  show g: "getOrganizedCounts pacific noonJan12 (quantize [mkDoc 0, mkDoc 96])
             = Inl LengthCheckFailed"
    unfolding q
    using getOrganizedCounts_two_days(2)
      [of "[?a]" "[?b]" pacific noonJan12 "''2024-1-10''" "''2024-1-11''", OF _ _ c s]
      ka kb
    by simp
  show "groupBy (quantize [mkDoc 0, mkDoc 96]) intersection
     = [(''Main&1st'', quantize [mkDoc 0, mkDoc 96])]"
    unfolding q by (rule groupBy_const) simp_all
  have "processData exampleConfig ?tk [mkDoc 0, mkDoc 96] =
           (case getOrganizedCounts (zone exampleConfig) (nowOrganize ?tk ''Main&1st'')
                   (quantize [mkDoc 0, mkDoc 96]) of
              Inl e \<Rightarrow> Inl e
            | Inr counts \<Rightarrow> Inr [(''Main&1st'', \<lparr>location = Some ''49.2827,-123.1207'', data = counts\<rparr>)])"
    by (rule processData_single) (simp_all add: mkDoc_def exampleConfig_def)
  then show "processData exampleConfig ?tk [mkDoc 0, mkDoc 96] = Inl LengthCheckFailed"
    using g by (simp add: exampleConfig_def tickAt_def)
qed

lemma example_short_fetch:
  "fetchAndCacheRecords exampleConfig (tickAt noonJan12 (Inr [mkDoc 0, mkDoc 96]))
     (initialState pacific noonJan12)
   = (Inr [mkDoc 0, mkDoc 96],
      \<lparr>timeLastFetched = noonJan12, VEHICLE_COUNTS = Some [mkDoc 0, mkDoc 96],
       PROCESSED_DATA = None\<rparr>)"
proof -
  let ?tk = "tickAt noonJan12 (Inr [mkDoc 0, mkDoc 96])"
  let ?s = "initialState pacific noonJan12 :: string state"
  have w: "timeLastFetched ?s = 1704438000000"
    by (simp add: initialState_def getInitialTimeLastFetched_def midnight_noonJan12
        LAUNCH_DAY_def ONE_HOUR_MS_def)
  have "fetchAndCacheRecords exampleConfig ?tk ?s
             = (Inr [mkDoc 0, mkDoc 96],
                ?s\<lparr>timeLastFetched := newDate ?tk, VEHICLE_COUNTS := Some [mkDoc 0, mkDoc 96]\<rparr>)"
  proof (rule fetchAndCacheRecords_fresh)
    show "collection ?tk = Inr [mkDoc 0, mkDoc 96]" by (simp add: tickAt_def)
    show "VEHICLE_COUNTS ?s = None" by (simp add: initialState_def)
    show "\<forall>d\<in>set [mkDoc 0, mkDoc 96]. timeLastFetched ?s < timestamp d
           \<and> getLocalMidnightNDaysAgo (zone exampleConfig) (nowFilter ?tk) 7 - ONE_HOUR_MS
               \<le> timestamp d"
      by (simp add: w exampleConfig_def tickAt_def midnight_noonJan12 ONE_HOUR_MS_def mkDoc_def)
    show "distinct (map hexId [mkDoc 0, mkDoc 96])" by (simp add: mkDoc_def hexDigits_def)
    show "sorted (map timestamp [mkDoc 0, mkDoc 96])" by (simp add: mkDoc_def)
  qed
  then show ?thesis by (simp add: tickAt_def initialState_def)
qed

lemma example_short_run:
  "fetchProcessAndCacheNewData exampleConfig (tickAt noonJan12 (Inr [mkDoc 0, mkDoc 96]))
     (initialState pacific noonJan12)
   = (Inl LengthCheckFailed,
      \<lparr>timeLastFetched = noonJan12, VEHICLE_COUNTS = Some [mkDoc 0, mkDoc 96],
       PROCESSED_DATA = None\<rparr>)"
  by (simp add: fetchProcessAndCacheNewData_def example_short_fetch example_short_day(5)
      processAndCacheData_def)


lemma midnight_after_noonJan12:
  "getLocalMidnightNDaysAgo pacific (noonJan12 + 600000) 7 = 1704441600000"
  by (simp add: pacific_def getLocalMidnightNDaysAgo_fixed noonJan12_def ONE_HOUR_MS_def
      Day_def msPerDay_def)

lemma example_run_after_error:
  "fetchAndCacheRecords exampleConfig (tickAt (noonJan12 + 600000) (Inr [mkDoc 0, docNoon]))
     \<lparr>timeLastFetched = noonJan12, VEHICLE_COUNTS = None, PROCESSED_DATA = None\<rparr>
   = (Inr [docNoon],
      \<lparr>timeLastFetched = noonJan12 + 600000, VEHICLE_COUNTS = Some [docNoon],
       PROCESSED_DATA = None\<rparr>)"
  "processData exampleConfig (tickAt (noonJan12 + 600000) (Inr [mkDoc 0, docNoon])) [docNoon]
   = Inr [(''Main&1st'', \<lparr>location = Some ''49.2827,-123.1207'', data = [(''2024-1-12'', [6])]\<rparr>)]"
  "fetchProcessAndCacheNewData exampleConfig
     (tickAt (noonJan12 + 600000) (Inr [mkDoc 0, docNoon]))
     \<lparr>timeLastFetched = noonJan12, VEHICLE_COUNTS = None, PROCESSED_DATA = None\<rparr>
   = (Inr (),
      \<lparr>timeLastFetched = noonJan12 + 600000, VEHICLE_COUNTS = Some [docNoon],
       PROCESSED_DATA =
         Some [(''Main&1st'',
                \<lparr>location = Some ''49.2827,-123.1207'', data = [(''2024-1-12'', [6])]\<rparr>)]\<rparr>)"
proof -
  let ?tk = "tickAt (noonJan12 + 600000) (Inr [mkDoc 0, docNoon])"
  let ?s = "\<lparr>timeLastFetched = noonJan12, VEHICLE_COUNTS = None, PROCESSED_DATA = None\<rparr>
              :: string state"
  let ?q = "\<lparr>timestamp = 1705089600000, vehicleCount = 6, intersection = ''Main&1st''\<rparr>"
  have fl: "filter (\<lambda>d. timeLastFetched ?s < timestamp d) [mkDoc 0, docNoon] = [docNoon]"
    by (simp add: mkDoc_def docNoon_def noonJan12_def)
  have rw: "filterRollingWeek pacific (noonJan12 + 600000) [docNoon] = [docNoon]"
    unfolding filterRollingWeek_def Let_def midnight_after_noonJan12
    by (simp add: sortBy_def docNoon_def noonJan12_def ONE_HOUR_MS_def)
  show f: "fetchAndCacheRecords exampleConfig ?tk ?s
     = (Inr [docNoon],
        \<lparr>timeLastFetched = noonJan12 + 600000, VEHICLE_COUNTS = Some [docNoon],
         PROCESSED_DATA = None\<rparr>)"
    using fl rw
    by (simp add: fetchAndCacheRecords_def find_gt_def tickAt_def exampleConfig_def uniqBy_def
        Let_def)
  have qn: "quantize [docNoon] = [?q]"
    by (simp add: quantize_def docNoon_def noonJan12_def roundToNearestQuarterHour_div)
  have k: "getYYYYMMDDDate pacific 1705089600000 = ''2024-1-12''"
    by (intro dayKey_2024_1_12) (simp add: Day_pacific)
  have g: "getOrganizedCounts pacific (noonJan12 + 600000) (quantize [docNoon])
             = Inr [(''2024-1-12'', [6])]"
    unfolding qn
    using getOrganizedCounts_single_point [of pacific "noonJan12 + 600000" ?q] k
    by (simp add: midnight_after_noonJan12 LAUNCH_DAY_def)
  have "processData exampleConfig ?tk [docNoon] =
           (case getOrganizedCounts (zone exampleConfig) (nowOrganize ?tk ''Main&1st'')
                   (quantize [docNoon]) of
              Inl e \<Rightarrow> Inl e
            | Inr counts \<Rightarrow> Inr [(''Main&1st'', \<lparr>location = Some ''49.2827,-123.1207'', data = counts\<rparr>)])"
    by (rule processData_single) (simp_all add: docNoon_def exampleConfig_def)
  then show p: "processData exampleConfig ?tk [docNoon]
     = Inr [(''Main&1st'', \<lparr>location = Some ''49.2827,-123.1207'', data = [(''2024-1-12'', [6])]\<rparr>)]"
    using g by (simp add: exampleConfig_def tickAt_def)
  show "fetchProcessAndCacheNewData exampleConfig ?tk ?s
   = (Inr (),
      \<lparr>timeLastFetched = noonJan12 + 600000, VEHICLE_COUNTS = Some [docNoon],
       PROCESSED_DATA =
         Some [(''Main&1st'',
                \<lparr>location = Some ''49.2827,-123.1207'', data = [(''2024-1-12'', [6])]\<rparr>)]\<rparr>)"
    by (simp add: fetchProcessAndCacheNewData_def f p processAndCacheData_def)
qed

section \<open>The properties on the example runs\<close>

theorem aggregation_failure_after_fetch_commit_witness:
  "collection (tickAt noonJan12 (Inr [mkDoc 0, mkDoc 96])) = Inr [mkDoc 0, mkDoc 96]
   \<and> [mkDoc 0, mkDoc 96] =
        filterRollingWeek (zone exampleConfig) (nowFilter (tickAt noonJan12 (Inr [mkDoc 0, mkDoc 96])))
          (uniqBy ((case VEHICLE_COUNTS (initialState pacific noonJan12 :: string state) of
                      None \<Rightarrow> [] | Some c \<Rightarrow> c)
                   @ filter (\<lambda>d. timestamp d
                                   > timeLastFetched (initialState pacific noonJan12 :: string state))
                       [mkDoc 0, mkDoc 96]) hexId)
   \<and> processData exampleConfig (tickAt noonJan12 (Inr [mkDoc 0, mkDoc 96])) [mkDoc 0, mkDoc 96]
       = Inl LengthCheckFailed
   \<and> fetchProcessAndCacheNewData exampleConfig (tickAt noonJan12 (Inr [mkDoc 0, mkDoc 96]))
         (initialState pacific noonJan12)
       = (Inl LengthCheckFailed,
          \<lparr>timeLastFetched = noonJan12, VEHICLE_COUNTS = Some [mkDoc 0, mkDoc 96],
           PROCESSED_DATA = None\<rparr>)
   \<and> PROCESSED_DATA (initialState pacific noonJan12 :: string state) = None
   \<and> timeLastFetched (initialState pacific noonJan12 :: string state) < noonJan12"
proof -
  let ?tk = "tickAt noonJan12 (Inr [mkDoc 0, mkDoc 96])"
  let ?s = "initialState pacific noonJan12 :: string state"
  let ?s' = "\<lparr>timeLastFetched = noonJan12, VEHICLE_COUNTS = Some [mkDoc 0, mkDoc 96],
           PROCESSED_DATA = None\<rparr> :: string state"
  have h1: "collection ?tk = Inr [mkDoc 0, mkDoc 96]" by (simp add: tickAt_def)
  have h2: "[mkDoc 0, mkDoc 96] =
        filterRollingWeek (zone exampleConfig) (nowFilter ?tk)
          (uniqBy ((case VEHICLE_COUNTS ?s of None \<Rightarrow> [] | Some c \<Rightarrow> c)
                   @ filter (\<lambda>d. timestamp d > timeLastFetched ?s) [mkDoc 0, mkDoc 96]) hexId)"
    using example_short_fetch h1 unfolding fetchAndCacheRecords_Inr by auto
  have h3: "processData exampleConfig ?tk [mkDoc 0, mkDoc 96] = Inl LengthCheckFailed"
    by (rule example_short_day(5))
  have h4: "fetchProcessAndCacheNewData exampleConfig ?tk ?s = (Inl LengthCheckFailed, ?s')"
    by (rule example_short_run)
  have w0: "timeLastFetched ?s = 1704438000000"
    by (simp add: initialState_def getInitialTimeLastFetched_def midnight_noonJan12
        LAUNCH_DAY_def ONE_HOUR_MS_def)
  have w1: "timeLastFetched ?s < noonJan12"
    unfolding w0 by (simp add: noonJan12_def)
  have w2: "PROCESSED_DATA ?s = None"
    by (simp add: initialState_def)
  note w = w1 w2
  from aggregation_failure_after_fetch_commit [OF h1 h2 h3 h4] h1 h2 h3 h4 w
  show ?thesis by simp
qed

theorem published_days_complete_witness:
  "reachable exampleConfig
     (snd (fetchProcessAndCacheNewData exampleConfig
             (tickAt noonJan12 (Inr (map mkDoc [0..<97]))) (initialState pacific noonJan12)))
   \<and> PROCESSED_DATA
        (snd (fetchProcessAndCacheNewData exampleConfig
                (tickAt noonJan12 (Inr (map mkDoc [0..<97]))) (initialState pacific noonJan12)))
       = Some [(''Main&1st'',
                \<lparr>location = Some ''49.2827,-123.1207'',
                 data = [(''2024-1-10'', map int [0..<96]), (''2024-1-11'', [96])]\<rparr>)]
   \<and> length (map int [0..<96]) = 96
   \<and> fetchAndCacheRecords exampleConfig (tickAt noonJan12 (Inr [mkDoc 0, mkDoc 96]))
         (initialState pacific noonJan12)
       = (Inr [mkDoc 0, mkDoc 96],
          \<lparr>timeLastFetched = noonJan12, VEHICLE_COUNTS = Some [mkDoc 0, mkDoc 96],
           PROCESSED_DATA = None\<rparr>)
   \<and> (''Main&1st'', quantize [mkDoc 0, mkDoc 96])
         \<in> set (groupBy (quantize [mkDoc 0, mkDoc 96]) intersection)
   \<and> compactCountsOf pacific (sortedCountsOf pacific noonJan12 (quantize [mkDoc 0, mkDoc 96]))
       = [(''2024-1-10'', [0]), (''2024-1-11'', [96])]
   \<and> (\<exists>e. fetchProcessAndCacheNewData exampleConfig (tickAt noonJan12 (Inr [mkDoc 0, mkDoc 96]))
              (initialState pacific noonJan12)
            = (Inl e,
               \<lparr>timeLastFetched = noonJan12, VEHICLE_COUNTS = Some [mkDoc 0, mkDoc 96],
                PROCESSED_DATA = None\<rparr>))
   \<and> PROCESSED_DATA (initialState pacific noonJan12 :: string state) = None"
proof -
  let ?s0 = "initialState pacific noonJan12 :: string state"
  let ?tkF = "tickAt noonJan12 (Inr (map mkDoc [0..<97]))"
  let ?sF = "snd (fetchProcessAndCacheNewData exampleConfig ?tkF ?s0)"
  let ?agg = "\<lparr>location = Some ''49.2827,-123.1207'',
                 data = [(''2024-1-10'', map int [0..<96]), (''2024-1-11'', [96])]\<rparr>"
  let ?tkS = "tickAt noonJan12 (Inr [mkDoc 0, mkDoc 96])"
  let ?sS = "\<lparr>timeLastFetched = noonJan12, VEHICLE_COUNTS = Some [mkDoc 0, mkDoc 96],
           PROCESSED_DATA = None\<rparr> :: string state"
  have z: "zone exampleConfig = pacific" "nowOrganize ?tkS ''Main&1st'' = noonJan12"
    by (simp_all add: exampleConfig_def tickAt_def)
  have "reachable exampleConfig (initialState (zone exampleConfig) noonJan12)"
    by (rule reachable.start)
  then have r: "reachable exampleConfig ?sF"
    unfolding z by (rule reachable.cycle)
  have p: "PROCESSED_DATA ?sF = Some [(''Main&1st'', ?agg)]"
    by (simp add: example_first_run)
  have f: "fetchAndCacheRecords exampleConfig ?tkS ?s0 = (Inr [mkDoc 0, mkDoc 96], ?sS)"
    by (rule example_short_fetch)
  have g: "(''Main&1st'', quantize [mkDoc 0, mkDoc 96])
             \<in> set (groupBy (quantize [mkDoc 0, mkDoc 96]) intersection)"
    by (simp add: example_short_day(4))
  have c: "compactCountsOf pacific (sortedCountsOf pacific noonJan12 (quantize [mkDoc 0, mkDoc 96]))
             = [(''2024-1-10'', [0]), (''2024-1-11'', [96])]"
    by (rule example_short_day(2))
  have n: "PROCESSED_DATA ?s0 = None" by (simp add: initialState_def)
  note t = published_days_complete [where cfg = exampleConfig and s = ?sF
      and snap = "[(''Main&1st'', ?agg)]" and name = "''Main&1st''" and agg = ?agg
      and day = "''2024-1-10''" and cs = "map int [0..<96]"
      and tk = ?tkS and ?s0.0 = ?s0 and rollingWeek = "[mkDoc 0, mkDoc 96]" and ?s1.0 = ?sS
      and name' = "''Main&1st''" and pts = "quantize [mkDoc 0, mkDoc 96]"
      and day' = "''2024-1-10''" and cs' = "[0]"]
  have l: "length (map int [0..<96]) = 96"
    using t r p by simp
  have e: "\<exists>e. fetchProcessAndCacheNewData exampleConfig ?tkS ?s0 = (Inl e, ?sS)"
    using t f g c z by simp
  from r p l f g c e n show ?thesis by simp
qed


section \<open>The window after a fetch\<close>

lemma filter_key_distinct:
  "distinct (map f xs) \<Longrightarrow>
     filter (\<lambda>x. f x = k) xs = (case find (\<lambda>x. f x = k) xs of None \<Rightarrow> [] | Some c \<Rightarrow> [c])"
proof (induction xs)
  case Nil
  then show ?case by simp
next
  case (Cons x xs)
  show ?case
  proof (cases "f x = k")
    case True
    with Cons.prems have "k \<notin> f ` set xs" by simp
    then have "\<forall>y\<in>set xs. f y \<noteq> k" by blast
    then have "filter (\<lambda>x. f x = k) xs = []" by (intro filter_False) simp
    with True show ?thesis by simp
  next
    case False
    with Cons show ?thesis by simp
  qed
qed

lemma filterRollingWeek_key:
  assumes "distinct (map hexId xs)"
  shows "filter (\<lambda>d. hexId d = i) (filterRollingWeek tz now xs) =
           (case find (\<lambda>d. hexId d = i) xs of
              None \<Rightarrow> []
            | Some c \<Rightarrow>
               if getLocalMidnightNDaysAgo tz now 7 - ONE_HOUR_MS \<le> timestamp c then [c] else [])"
proof -
  let ?P = "\<lambda>d. getLocalMidnightNDaysAgo tz now 7 - ONE_HOUR_MS \<le> timestamp d"
  have "filter (\<lambda>d. hexId d = i) (filterRollingWeek tz now xs)
          = sort_key timestamp (filter ?P (filter (\<lambda>d. hexId d = i) xs))"
    by (simp add: filterRollingWeek_def sortBy_def Let_def filter_sort conj_commute)
  also have "\<dots> = (case find (\<lambda>d. hexId d = i) xs of
              None \<Rightarrow> [] | Some c \<Rightarrow> if ?P c then [c] else [])"
    unfolding filter_key_distinct [OF assms] by (simp split: option.splits)
  finally show ?thesis .
qed

lemma filterRollingWeek_distinct:
  "distinct (map hexId xs) \<Longrightarrow> distinct (map hexId (filterRollingWeek tz now xs))"
proof -
  assume "distinct (map hexId xs)"
  then have "distinct (map hexId (filter
     (\<lambda>d. getLocalMidnightNDaysAgo tz now 7 - ONE_HOUR_MS \<le> timestamp d) xs))"
    by (rule distinct_map_filter)
  then show ?thesis by (simp add: filterRollingWeek_def sortBy_def Let_def distinct_map)
qed

lemma fetchAndCacheRecords_window:
  "fetchAndCacheRecords cfg tk s = (Inr rollingWeek, s') \<longleftrightarrow>
     (\<exists>fetched. find_gt (collection tk) (timeLastFetched s) = Inr fetched
        \<and> rollingWeek =
            filterRollingWeek (zone cfg) (nowFilter tk) (uniqBy (cachedWindow s @ fetched) hexId)
        \<and> s' = s\<lparr>timeLastFetched := newDate tk, VEHICLE_COUNTS := Some rollingWeek\<rparr>)"
  by (auto simp add: fetchAndCacheRecords_def cachedWindow_def Let_def split: sum.splits)

lemma midnight_on_Jan12:
  assumes "1705046400000 \<le> now" and "now < 1705132800000"
  shows "getLocalMidnightNDaysAgo pacific now 7 = 1704441600000"
proof -
  define r where "r = now - 1705046400000"
  have r: "0 \<le> r" "r < 86400000" using assms by (simp_all add: r_def)
  have "now - 7 * 86400000 + - 8 * ONE_HOUR_MS = 86400000 * 19727 + r"
    by (simp add: r_def ONE_HOUR_MS_def)
  moreover have "(86400000 * 19727 + r) div 86400000 = 19727"
    using r by (rule div_add_small)
  ultimately have "Day (now - 7 * 86400000 + - 8 * ONE_HOUR_MS) = 19727"
    by (simp add: Day_def msPerDay_def)
  then show ?thesis
    unfolding pacific_def getLocalMidnightNDaysAgo_fixed
    by (simp add: msPerDay_def ONE_HOUR_MS_def)
qed

text \<open>
  Claim C7. The fetch stage merges the window cached before, followed by the fetched
  batch, and the merged list has under an \<open>_id\<close> the first record that has it in
  that order. When the stage returns, the cached window is its result, the merged
  list pruned: it holds at most one record for an \<open>_id\<close>, that first record if
  pruning keeps it, and no record otherwise. So for an \<open>_id\<close> of the window cached
  before, the record is the first one of that window, whatever the batch holds under
  that \<open>_id\<close>.
\<close>

theorem window_copy_wins:
  assumes "fetchAndCacheRecords cfg tk s = (Inr rollingWeek, s')"
  shows "\<exists>fetched.
           find_gt (collection tk) (timeLastFetched s) = Inr fetched
           \<and> rollingWeek =
               filterRollingWeek (zone cfg) (nowFilter tk) (uniqBy (cachedWindow s @ fetched) hexId)
           \<and> (\<forall>i. find (\<lambda>d. hexId d = i) (uniqBy (cachedWindow s @ fetched) hexId)
                    = find (\<lambda>d. hexId d = i) (cachedWindow s @ fetched))
           \<and> VEHICLE_COUNTS s' = Some rollingWeek
           \<and> distinct (map hexId rollingWeek)
           \<and> (\<forall>i. filter (\<lambda>d. hexId d = i) rollingWeek =
                  (case find (\<lambda>d. hexId d = i) (cachedWindow s @ fetched) of
                     None \<Rightarrow> []
                   | Some c \<Rightarrow>
                      if getLocalMidnightNDaysAgo (zone cfg) (nowFilter tk) 7 - ONE_HOUR_MS
                           \<le> timestamp c
                      then [c] else []))
           \<and> (\<forall>i\<in>hexId ` set (cachedWindow s).
                  filter (\<lambda>d. hexId d = i) rollingWeek =
                  (case find (\<lambda>d. hexId d = i) (cachedWindow s) of
                     None \<Rightarrow> []
                   | Some c \<Rightarrow>
                      if getLocalMidnightNDaysAgo (zone cfg) (nowFilter tk) 7 - ONE_HOUR_MS
                           \<le> timestamp c
                      then [c] else []))"
proof -
  from assms obtain fetched
    where f: "find_gt (collection tk) (timeLastFetched s) = Inr fetched"
      and rw: "rollingWeek =
            filterRollingWeek (zone cfg) (nowFilter tk) (uniqBy (cachedWindow s @ fetched) hexId)"
      and s': "s' = s\<lparr>timeLastFetched := newDate tk, VEHICLE_COUNTS := Some rollingWeek\<rparr>"
    unfolding fetchAndCacheRecords_window by blast
  let ?u = "uniqBy (cachedWindow s @ fetched) hexId"
  have d: "distinct (map hexId ?u)" by (rule uniqBy_distinct)
  have k: "filter (\<lambda>d. hexId d = i) rollingWeek =
             (case find (\<lambda>d. hexId d = i) (cachedWindow s @ fetched) of
                None \<Rightarrow> []
              | Some c \<Rightarrow>
                 if getLocalMidnightNDaysAgo (zone cfg) (nowFilter tk) 7 - ONE_HOUR_MS
                      \<le> timestamp c
                 then [c] else [])" for i
    unfolding rw filterRollingWeek_key [OF d] uniqBy_find ..
  have w: "find (\<lambda>d. hexId d = i) (cachedWindow s @ fetched)
             = find (\<lambda>d. hexId d = i) (cachedWindow s)"
    if "i \<in> hexId ` set (cachedWindow s)" for i
  proof -
    from that have "find (\<lambda>d. hexId d = i) (cachedWindow s) \<noteq> None"
      by (auto simp add: find_None_iff)
    then show ?thesis by (auto simp add: find_append_first)
  qed
  have "distinct (map hexId rollingWeek)"
    unfolding rw using d by (rule filterRollingWeek_distinct)
  moreover have "VEHICLE_COUNTS s' = Some rollingWeek" using s' by simp
  moreover have "\<forall>i\<in>hexId ` set (cachedWindow s).
                  filter (\<lambda>d. hexId d = i) rollingWeek =
                  (case find (\<lambda>d. hexId d = i) (cachedWindow s) of
                     None \<Rightarrow> []
                   | Some c \<Rightarrow>
                      if getLocalMidnightNDaysAgo (zone cfg) (nowFilter tk) 7 - ONE_HOUR_MS
                           \<le> timestamp c
                      then [c] else [])"
    using k w by simp
  moreover have "\<forall>i. find (\<lambda>d. hexId d = i) (uniqBy (cachedWindow s @ fetched) hexId)
                    = find (\<lambda>d. hexId d = i) (cachedWindow s @ fetched)"
    by (simp add: uniqBy_find)
  ultimately show ?thesis using f rw k by blast
qed

lemma example_recount_fetch:
  "fetchAndCacheRecords exampleConfig
       (tickAt (noonJan12 + 600000) (Inr [docNoonRecount, docRace]))
       \<lparr>timeLastFetched = noonJan12, VEHICLE_COUNTS = Some [docNoon], PROCESSED_DATA = None\<rparr>
     = (Inr [docNoon, docRace],
        \<lparr>timeLastFetched = noonJan12 + 600000, VEHICLE_COUNTS = Some [docNoon, docRace],
         PROCESSED_DATA = None\<rparr>)"
proof -
  have fl: "filter (\<lambda>d. noonJan12 < timestamp d) [docNoonRecount, docRace]
              = [docNoonRecount, docRace]"
    by (simp add: docNoonRecount_def docRace_def)
  have u: "uniqBy ([docNoon] @ [docNoonRecount, docRace]) hexId = [docNoon, docRace]"
    by (simp add: uniqBy_def docNoon_def docNoonRecount_def docRace_def)
  have rw: "filterRollingWeek pacific (noonJan12 + 600000) [docNoon, docRace] = [docNoon, docRace]"
    unfolding filterRollingWeek_def Let_def midnight_after_noonJan12
    by (simp add: sortBy_def docNoon_def docRace_def noonJan12_def ONE_HOUR_MS_def)
  show ?thesis
    using fl u rw
    by (simp add: fetchAndCacheRecords_def find_gt_def tickAt_def exampleConfig_def Let_def)
qed

theorem window_copy_wins_witness:
  "fetchAndCacheRecords exampleConfig
       (tickAt (noonJan12 + 600000) (Inr [docNoonRecount, docRace]))
       \<lparr>timeLastFetched = noonJan12, VEHICLE_COUNTS = Some [docNoon], PROCESSED_DATA = None\<rparr>
     = (Inr [docNoon, docRace],
        \<lparr>timeLastFetched = noonJan12 + 600000, VEHICLE_COUNTS = Some [docNoon, docRace],
         PROCESSED_DATA = None\<rparr>)
   \<and> find_gt (Inr [docNoonRecount, docRace]) noonJan12 = Inr [docNoonRecount, docRace]
   \<and> hexId docNoonRecount = hexId docNoon
   \<and> vehicleCount docNoonRecount \<noteq> vehicleCount docNoon
   \<and> hexId docNoon \<in> hexId ` set [docNoon]
   \<and> filter (\<lambda>d. hexId d = hexId docNoon) [docNoon, docRace] = [docNoon]
   \<and> find (\<lambda>d. hexId d = hexId docNoon) [docNoon] = Some docNoon
   \<and> getLocalMidnightNDaysAgo pacific (noonJan12 + 600000) 7 - ONE_HOUR_MS \<le> timestamp docNoon"
proof -
  let ?s = "\<lparr>timeLastFetched = noonJan12, VEHICLE_COUNTS = Some [docNoon], PROCESSED_DATA = None\<rparr>
              :: string state"
  let ?tk = "tickAt (noonJan12 + 600000) (Inr [docNoonRecount, docRace])"
  have c: "cachedWindow ?s = [docNoon]" by (simp add: cachedWindow_def)
  have z: "zone exampleConfig = pacific" "nowFilter ?tk = noonJan12 + 600000"
    by (simp_all add: exampleConfig_def tickAt_def)
  have i: "hexId docNoon \<in> hexId ` set (cachedWindow ?s)" unfolding c by simp
  from window_copy_wins [OF example_recount_fetch]
  have "filter (\<lambda>d. hexId d = hexId docNoon) [docNoon, docRace] =
          (case find (\<lambda>d. hexId d = hexId docNoon) (cachedWindow ?s) of
             None \<Rightarrow> []
           | Some c \<Rightarrow>
              if getLocalMidnightNDaysAgo (zone exampleConfig) (nowFilter ?tk) 7 - ONE_HOUR_MS
                   \<le> timestamp c
              then [c] else [])"
    using i by blast
  then have "filter (\<lambda>d. hexId d = hexId docNoon) [docNoon, docRace] =
          (if getLocalMidnightNDaysAgo pacific (noonJan12 + 600000) 7 - ONE_HOUR_MS
                \<le> timestamp docNoon
           then [docNoon] else [])"
    unfolding c z by simp
  moreover have "getLocalMidnightNDaysAgo pacific (noonJan12 + 600000) 7 - ONE_HOUR_MS
                   \<le> timestamp docNoon"
    unfolding midnight_after_noonJan12 by (simp add: docNoon_def noonJan12_def ONE_HOUR_MS_def)
  moreover have "find_gt (Inr [docNoonRecount, docRace]) noonJan12 = Inr [docNoonRecount, docRace]"
    by (simp add: find_gt_def docNoonRecount_def docRace_def)
  moreover have "hexId docNoonRecount = hexId docNoon"
    "vehicleCount docNoonRecount \<noteq> vehicleCount docNoon"
    by (simp_all add: docNoonRecount_def docNoon_def)
  ultimately show ?thesis using example_recount_fetch by simp
qed

section \<open>Fetching the same batch twice\<close>

lemma uniqBy_append_distinct:
  "distinct (map f xs) \<Longrightarrow> uniqBy (xs @ ys) f = xs @ baseUniq f (map f xs @ []) ys"
  by (simp add: uniqBy_def baseUniq_append baseUniq_id)

lemma filterRollingWeek_cutoff_cong:
  "getLocalMidnightNDaysAgo tz now2 7 = getLocalMidnightNDaysAgo tz now1 7 \<Longrightarrow>
     filterRollingWeek tz now2 xs = filterRollingWeek tz now1 xs"
  by (simp add: filterRollingWeek_def)

lemma fetch_stage_idempotent:
  assumes "\<forall>a\<in>set (cached @ fetched). \<forall>b\<in>set (cached @ fetched).
             hexId a = hexId b \<longrightarrow> timestamp a = timestamp b"
  shows "filterRollingWeek tz now
           (uniqBy (filterRollingWeek tz now (uniqBy (cached @ fetched) hexId) @ fetched) hexId)
         = filterRollingWeek tz now (uniqBy (cached @ fetched) hexId)"
proof -
  let ?P = "\<lambda>d. getLocalMidnightNDaysAgo tz now 7 - ONE_HOUR_MS \<le> timestamp d"
  let ?u = "uniqBy (cached @ fetched) hexId"
  let ?w = "filterRollingWeek tz now ?u"
  have w: "?w = sort_key timestamp (filter ?P ?u)"
    by (simp add: filterRollingWeek_def sortBy_def)
  have setw: "set ?w = {d \<in> set ?u. ?P d}" unfolding w by auto
  have dw: "distinct (map hexId ?w)"
    by (rule filterRollingWeek_distinct) (rule uniqBy_distinct)
  have sw: "sorted (map timestamp ?w)" unfolding w by simp
  let ?t = "baseUniq hexId (map hexId ?w @ []) fetched"
  have u: "uniqBy (?w @ fetched) hexId = ?w @ ?t"
    using dw by (rule uniqBy_append_distinct)
  have t: "\<forall>x\<in>set ?t. \<not> ?P x"
  proof
    fix x assume x: "x \<in> set ?t"
    then have xf: "x \<in> set fetched" using baseUniq_subset by fastforce
    from x have "hexId x \<in> set (map hexId ?t)" by simp
    then have n: "hexId x \<notin> hexId ` set ?w"
      unfolding baseUniq_keys by simp
    from xf have "hexId x \<in> hexId ` set (cached @ fetched)" by simp
    then have "hexId x \<in> hexId ` set ?u" by (simp only: uniqBy_keys)
    then obtain y where y: "y \<in> set ?u" and e: "hexId y = hexId x" by auto
    from y have yc: "y \<in> set (cached @ fetched)" using uniqBy_subset by fastforce
    from n e have "y \<notin> set ?w" by (metis image_eqI)
    with y setw have "\<not> ?P y" by simp
    moreover have "x \<in> set (cached @ fetched)" using xf by simp
    with assms yc e have "timestamp y = timestamp x" by blast
    ultimately show "\<not> ?P x" by simp
  qed
  have "filter ?P (?w @ ?t) = ?w"
  proof -
    have "filter ?P ?w = ?w" using setw by (intro filter_True) auto
    moreover have "filter ?P ?t = []" using t by (intro filter_False) auto
    ultimately show ?thesis by simp
  qed
  then have "filterRollingWeek tz now (?w @ ?t) = sort_key timestamp ?w"
    by (simp add: filterRollingWeek_def sortBy_def Let_def)
  also have "\<dots> = ?w" using sw by (rule sort_key_id_if_sorted)
  finally show ?thesis unfolding u .
qed

text \<open>
  Claim C5, as the code has it. The fetch stage merges the batch into the cached
  window and prunes the result. When it runs twice with the same fetched batch and
  the same cutoff of pruning, and the records of the window and the batch that share
  an \<open>_id\<close> share their timestamp, the second run leaves the window of the first.
\<close>

theorem fetch_twice_same_window:
  assumes "fetchAndCacheRecords cfg tk1 s = (Inr w1, s1)"
    and "fetchAndCacheRecords cfg tk2 s1 = (Inr w2, s2)"
    and "find_gt (collection tk1) (timeLastFetched s) = Inr fetched"
    and "find_gt (collection tk2) (timeLastFetched s1) = Inr fetched"
    and "getLocalMidnightNDaysAgo (zone cfg) (nowFilter tk2) 7
           = getLocalMidnightNDaysAgo (zone cfg) (nowFilter tk1) 7"
    and "\<forall>a\<in>set (cachedWindow s @ fetched). \<forall>b\<in>set (cachedWindow s @ fetched).
           hexId a = hexId b \<longrightarrow> timestamp a = timestamp b"
  shows "w2 = w1 \<and> VEHICLE_COUNTS s1 = Some w1 \<and> VEHICLE_COUNTS s2 = Some w1"
proof -
  from assms(1,3) have w1: "w1 = filterRollingWeek (zone cfg) (nowFilter tk1)
                                  (uniqBy (cachedWindow s @ fetched) hexId)"
    and s1: "s1 = s\<lparr>timeLastFetched := newDate tk1, VEHICLE_COUNTS := Some w1\<rparr>"
    unfolding fetchAndCacheRecords_window by auto
  from s1 have c1: "cachedWindow s1 = w1" by (simp add: cachedWindow_def)
  from assms(2,4) have w2: "w2 = filterRollingWeek (zone cfg) (nowFilter tk2)
                                  (uniqBy (cachedWindow s1 @ fetched) hexId)"
    and s2: "s2 = s1\<lparr>timeLastFetched := newDate tk2, VEHICLE_COUNTS := Some w2\<rparr>"
    unfolding fetchAndCacheRecords_window by auto
  have "w2 = filterRollingWeek (zone cfg) (nowFilter tk1) (uniqBy (w1 @ fetched) hexId)"
    unfolding w2 c1 using assms(5) by (rule filterRollingWeek_cutoff_cong)
  also have "\<dots> = w1"
    unfolding w1 using assms(6) by (rule fetch_stage_idempotent)
  finally have "w2 = w1" .
  with s1 s2 show ?thesis by simp
qed

lemma example_race_fetch:
  "fetchAndCacheRecords exampleConfig (tickAt (noonJan12 + 630000) (Inr [docNoon, docRace]))
       \<lparr>timeLastFetched = noonJan12 + 600000, VEHICLE_COUNTS = Some [docNoon, docRace],
        PROCESSED_DATA = None\<rparr>
     = (Inr [docNoon, docRace],
        \<lparr>timeLastFetched = noonJan12 + 630000, VEHICLE_COUNTS = Some [docNoon, docRace],
         PROCESSED_DATA = None\<rparr>)"
  "fetchAndCacheRecords exampleConfig (tickAt (noonJan12 + 640000) (Inr [docNoon, docRace]))
       \<lparr>timeLastFetched = noonJan12 + 630000, VEHICLE_COUNTS = Some [docNoon, docRace],
        PROCESSED_DATA = None\<rparr>
     = (Inr [docNoon, docRace],
        \<lparr>timeLastFetched = noonJan12 + 640000, VEHICLE_COUNTS = Some [docNoon, docRace],
         PROCESSED_DATA = None\<rparr>)"
  "find_gt (Inr [docNoon, docRace]) (noonJan12 + 600000) = Inr [docRace]"
  "find_gt (Inr [docNoon, docRace]) (noonJan12 + 630000) = Inr [docRace]"
  "getLocalMidnightNDaysAgo pacific (noonJan12 + 630000) 7 = 1704441600000"
  "getLocalMidnightNDaysAgo pacific (noonJan12 + 640000) 7 = 1704441600000"
proof -
  show m1: "getLocalMidnightNDaysAgo pacific (noonJan12 + 630000) 7 = 1704441600000"
    by (rule midnight_on_Jan12) (simp_all add: noonJan12_def)
  show m2: "getLocalMidnightNDaysAgo pacific (noonJan12 + 640000) 7 = 1704441600000"
    by (rule midnight_on_Jan12) (simp_all add: noonJan12_def)
  show f1: "find_gt (Inr [docNoon, docRace]) (noonJan12 + 600000) = Inr [docRace]"
    by (simp add: find_gt_def docNoon_def docRace_def)
  show f2: "find_gt (Inr [docNoon, docRace]) (noonJan12 + 630000) = Inr [docRace]"
    by (simp add: find_gt_def docNoon_def docRace_def)
  have u: "uniqBy ([docNoon, docRace] @ [docRace]) hexId = [docNoon, docRace]"
    by (simp add: uniqBy_def docNoon_def docRace_def)
  have rw1: "filterRollingWeek pacific (noonJan12 + 630000) [docNoon, docRace] = [docNoon, docRace]"
    unfolding filterRollingWeek_def Let_def m1
    by (simp add: sortBy_def docNoon_def docRace_def noonJan12_def ONE_HOUR_MS_def)
  have rw2: "filterRollingWeek pacific (noonJan12 + 640000) [docNoon, docRace] = [docNoon, docRace]"
    unfolding filterRollingWeek_def Let_def m2
    by (simp add: sortBy_def docNoon_def docRace_def noonJan12_def ONE_HOUR_MS_def)
  show "fetchAndCacheRecords exampleConfig (tickAt (noonJan12 + 630000) (Inr [docNoon, docRace]))
       \<lparr>timeLastFetched = noonJan12 + 600000, VEHICLE_COUNTS = Some [docNoon, docRace],
        PROCESSED_DATA = None\<rparr>
     = (Inr [docNoon, docRace],
        \<lparr>timeLastFetched = noonJan12 + 630000, VEHICLE_COUNTS = Some [docNoon, docRace],
         PROCESSED_DATA = None\<rparr>)"
    unfolding fetchAndCacheRecords_window
    using f1 u rw1 by (simp add: tickAt_def exampleConfig_def cachedWindow_def)
  show "fetchAndCacheRecords exampleConfig (tickAt (noonJan12 + 640000) (Inr [docNoon, docRace]))
       \<lparr>timeLastFetched = noonJan12 + 630000, VEHICLE_COUNTS = Some [docNoon, docRace],
        PROCESSED_DATA = None\<rparr>
     = (Inr [docNoon, docRace],
        \<lparr>timeLastFetched = noonJan12 + 640000, VEHICLE_COUNTS = Some [docNoon, docRace],
         PROCESSED_DATA = None\<rparr>)"
    unfolding fetchAndCacheRecords_window
    using f2 u rw2 by (simp add: tickAt_def exampleConfig_def cachedWindow_def)
qed

theorem fetch_twice_same_window_witness:
  "fetchAndCacheRecords exampleConfig (tickAt (noonJan12 + 630000) (Inr [docNoon, docRace]))
       \<lparr>timeLastFetched = noonJan12 + 600000, VEHICLE_COUNTS = Some [docNoon, docRace],
        PROCESSED_DATA = None\<rparr>
     = (Inr [docNoon, docRace],
        \<lparr>timeLastFetched = noonJan12 + 630000, VEHICLE_COUNTS = Some [docNoon, docRace],
         PROCESSED_DATA = None\<rparr>)
   \<and> fetchAndCacheRecords exampleConfig (tickAt (noonJan12 + 640000) (Inr [docNoon, docRace]))
       \<lparr>timeLastFetched = noonJan12 + 630000, VEHICLE_COUNTS = Some [docNoon, docRace],
        PROCESSED_DATA = None\<rparr>
     = (Inr [docNoon, docRace],
        \<lparr>timeLastFetched = noonJan12 + 640000, VEHICLE_COUNTS = Some [docNoon, docRace],
         PROCESSED_DATA = None\<rparr>)
   \<and> find_gt (Inr [docNoon, docRace]) (noonJan12 + 600000) = Inr [docRace]
   \<and> find_gt (Inr [docNoon, docRace]) (noonJan12 + 630000) = Inr [docRace]
   \<and> getLocalMidnightNDaysAgo pacific (noonJan12 + 640000) 7
       = getLocalMidnightNDaysAgo pacific (noonJan12 + 630000) 7
   \<and> list_all (\<lambda>a. list_all (\<lambda>b. hexId a = hexId b \<longrightarrow> timestamp a = timestamp b)
                    ([docNoon, docRace] @ [docRace])) ([docNoon, docRace] @ [docRace])
   \<and> [docNoon, docRace] = [docNoon, docRace]"
proof -
  let ?s = "\<lparr>timeLastFetched = noonJan12 + 600000, VEHICLE_COUNTS = Some [docNoon, docRace],
        PROCESSED_DATA = None\<rparr> :: string state"
  let ?s1 = "\<lparr>timeLastFetched = noonJan12 + 630000, VEHICLE_COUNTS = Some [docNoon, docRace],
        PROCESSED_DATA = None\<rparr> :: string state"
  let ?tk1 = "tickAt (noonJan12 + 630000) (Inr [docNoon, docRace])"
  let ?tk2 = "tickAt (noonJan12 + 640000) (Inr [docNoon, docRace])"
  have h3: "find_gt (collection ?tk1) (timeLastFetched ?s) = Inr [docRace]"
    using example_race_fetch(3) by (simp add: tickAt_def)
  have h4: "find_gt (collection ?tk2) (timeLastFetched ?s1) = Inr [docRace]"
    using example_race_fetch(4) by (simp add: tickAt_def)
  have h5: "getLocalMidnightNDaysAgo (zone exampleConfig) (nowFilter ?tk2) 7
              = getLocalMidnightNDaysAgo (zone exampleConfig) (nowFilter ?tk1) 7"
    using example_race_fetch(5,6) by (simp add: tickAt_def exampleConfig_def)
  have h6: "\<forall>a\<in>set (cachedWindow ?s @ [docRace]). \<forall>b\<in>set (cachedWindow ?s @ [docRace]).
              hexId a = hexId b \<longrightarrow> timestamp a = timestamp b"
    by (simp add: cachedWindow_def docNoon_def docRace_def)
  have l: "list_all (\<lambda>a. list_all (\<lambda>b. hexId a = hexId b \<longrightarrow> timestamp a = timestamp b)
                    ([docNoon, docRace] @ [docRace])) ([docNoon, docRace] @ [docRace])"
    by (simp add: docNoon_def docRace_def)
  from fetch_twice_same_window [OF example_race_fetch(1) example_race_fetch(2) h3 h4 h5 h6]
  have t: "[docNoon, docRace] = [docNoon, docRace]" by simp
  have c: "getLocalMidnightNDaysAgo pacific (noonJan12 + 640000) 7
             = getLocalMidnightNDaysAgo pacific (noonJan12 + 630000) 7"
    unfolding example_race_fetch(5) example_race_fetch(6) ..
  show ?thesis
    by (intro conjI) (fact example_race_fetch(1) example_race_fetch(2) example_race_fetch(3)
        example_race_fetch(4) c l t)+
qed

lemma example_moved_fetch:
  "getLocalMidnightNDaysAgo pacific earlyJan12 7 = 1704441600000"
  "getLocalMidnightNDaysAgo pacific (earlyJan12 + 600000) 7 = 1704441600000"
  "find_gt (Inr [docMoved]) (earlyJan12 - 600000) = Inr [docMoved]"
  "find_gt (Inr [docMoved]) earlyJan12 = Inr [docMoved]"
  "fetchAndCacheRecords exampleConfig (tickAt earlyJan12 (Inr [docMoved]))
       \<lparr>timeLastFetched = earlyJan12 - 600000, VEHICLE_COUNTS = Some [docStale],
        PROCESSED_DATA = None\<rparr>
     = (Inr [],
        \<lparr>timeLastFetched = earlyJan12, VEHICLE_COUNTS = Some [], PROCESSED_DATA = None\<rparr>)"
  "fetchAndCacheRecords exampleConfig (tickAt (earlyJan12 + 600000) (Inr [docMoved]))
       \<lparr>timeLastFetched = earlyJan12, VEHICLE_COUNTS = Some [], PROCESSED_DATA = None\<rparr>
     = (Inr [docMoved],
        \<lparr>timeLastFetched = earlyJan12 + 600000, VEHICLE_COUNTS = Some [docMoved],
         PROCESSED_DATA = None\<rparr>)"
proof -
  show m1: "getLocalMidnightNDaysAgo pacific earlyJan12 7 = 1704441600000"
    by (rule midnight_on_Jan12) (simp_all add: earlyJan12_def)
  show m2: "getLocalMidnightNDaysAgo pacific (earlyJan12 + 600000) 7 = 1704441600000"
    by (rule midnight_on_Jan12) (simp_all add: earlyJan12_def)
  show f1: "find_gt (Inr [docMoved]) (earlyJan12 - 600000) = Inr [docMoved]"
    by (simp add: find_gt_def docMoved_def earlyJan12_def)
  show f2: "find_gt (Inr [docMoved]) earlyJan12 = Inr [docMoved]"
    by (simp add: find_gt_def docMoved_def earlyJan12_def)
  have u1: "uniqBy ([docStale] @ [docMoved]) hexId = [docStale]"
    by (simp add: uniqBy_def docStale_def docMoved_def)
  have u2: "uniqBy ([] @ [docMoved]) hexId = [docMoved]"
    by (simp add: uniqBy_def)
  have rw1: "filterRollingWeek pacific earlyJan12 [docStale] = []"
    unfolding filterRollingWeek_def Let_def m1
    by (simp add: sortBy_def docStale_def ONE_HOUR_MS_def)
  have rw2: "filterRollingWeek pacific (earlyJan12 + 600000) [docMoved] = [docMoved]"
    unfolding filterRollingWeek_def Let_def m2
    by (simp add: sortBy_def docMoved_def ONE_HOUR_MS_def)
  show "fetchAndCacheRecords exampleConfig (tickAt earlyJan12 (Inr [docMoved]))
       \<lparr>timeLastFetched = earlyJan12 - 600000, VEHICLE_COUNTS = Some [docStale],
        PROCESSED_DATA = None\<rparr>
     = (Inr [],
        \<lparr>timeLastFetched = earlyJan12, VEHICLE_COUNTS = Some [], PROCESSED_DATA = None\<rparr>)"
    unfolding fetchAndCacheRecords_window
    using f1 u1 rw1 by (simp add: tickAt_def exampleConfig_def cachedWindow_def)
  show "fetchAndCacheRecords exampleConfig (tickAt (earlyJan12 + 600000) (Inr [docMoved]))
       \<lparr>timeLastFetched = earlyJan12, VEHICLE_COUNTS = Some [], PROCESSED_DATA = None\<rparr>
     = (Inr [docMoved],
        \<lparr>timeLastFetched = earlyJan12 + 600000, VEHICLE_COUNTS = Some [docMoved],
         PROCESSED_DATA = None\<rparr>)"
    unfolding fetchAndCacheRecords_window
    using f2 u2 rw2 by (simp add: tickAt_def exampleConfig_def cachedWindow_def)
qed

text \<open>
  Claim C5 as stated fails. The window cached before midnight holds a document that
  the store has since updated: same \<open>_id\<close>, a later timestamp. The first run after
  midnight fetches the updated document, keeps the window's copy in the merge and
  prunes it: the window is empty. The next run fetches the same batch again and
  merges it into that window: the window then holds the updated document.
\<close>

theorem fetch_twice_differs:
  "find_gt (Inr [docMoved]) (earlyJan12 - 600000) = Inr [docMoved]
   \<and> find_gt (Inr [docMoved]) earlyJan12 = Inr [docMoved]
   \<and> getLocalMidnightNDaysAgo pacific (earlyJan12 + 600000) 7
       = getLocalMidnightNDaysAgo pacific earlyJan12 7
   \<and> hexId docMoved = hexId docStale
   \<and> fetchAndCacheRecords exampleConfig (tickAt earlyJan12 (Inr [docMoved]))
       \<lparr>timeLastFetched = earlyJan12 - 600000, VEHICLE_COUNTS = Some [docStale],
        PROCESSED_DATA = None\<rparr>
     = (Inr [],
        \<lparr>timeLastFetched = earlyJan12, VEHICLE_COUNTS = Some [], PROCESSED_DATA = None\<rparr>)
   \<and> fetchAndCacheRecords exampleConfig (tickAt (earlyJan12 + 600000) (Inr [docMoved]))
       \<lparr>timeLastFetched = earlyJan12, VEHICLE_COUNTS = Some [], PROCESSED_DATA = None\<rparr>
     = (Inr [docMoved],
        \<lparr>timeLastFetched = earlyJan12 + 600000, VEHICLE_COUNTS = Some [docMoved],
         PROCESSED_DATA = None\<rparr>)
   \<and> set [docMoved] \<noteq> set ([] :: document list)"
  using example_moved_fetch by (simp add: docMoved_def docStale_def)

section \<open>The processed data, intersection by intersection\<close>





lemma mapE_cong: "(\<And>x. x \<in> set xs \<Longrightarrow> f x = g x) \<Longrightarrow> mapE f xs = mapE g xs"
  by (induction xs) (simp_all split: sum.splits)





lemma list_all2_in_set1: "list_all2 P xs ys \<Longrightarrow> x \<in> set xs \<Longrightarrow> \<exists>y\<in>set ys. P x y"
  by (induction rule: list_all2_induct) auto




section \<open>Records older than the cutoff of the aggregation\<close>













section \<open>Further facts about the cycle\<close>

text \<open>
  The watermark moves before the query runs, also when the query fails: the next
  query then asks for the documents newer than the failed run's clock, and a document
  that is older and not yet in the cached window does not enter the rolling week.
\<close>

lemma store_error_advances_watermark:
  assumes "collection tk = Inl e"
  shows "fetchProcessAndCacheNewData cfg tk s = (Inl e, s\<lparr>timeLastFetched := newDate tk\<rparr>)"
  using assms by (simp add: cycle_unfold)

lemma not_fetched_after_store_error:
  assumes "collection tk = Inl e"
    and "fetchAndCacheRecords cfg tk2 (snd (fetchProcessAndCacheNewData cfg tk s))
           = (Inr rollingWeek, s2)"
    and "timestamp d \<le> newDate tk"
    and "d \<notin> set (case VEHICLE_COUNTS s of None \<Rightarrow> [] | Some c \<Rightarrow> c)"
  shows "d \<notin> set rollingWeek"
proof -
  let ?s' = "s\<lparr>timeLastFetched := newDate tk\<rparr>"
  have s': "snd (fetchProcessAndCacheNewData cfg tk s) = ?s'"
    using assms(1) by (simp add: store_error_advances_watermark)
  from assms(2) obtain docs where
    rw: "rollingWeek =
            filterRollingWeek (zone cfg) (nowFilter tk2)
              (uniqBy ((case VEHICLE_COUNTS ?s' of None \<Rightarrow> [] | Some c \<Rightarrow> c)
                       @ filter (\<lambda>d. timestamp d > timeLastFetched ?s') docs) hexId)"
    unfolding s' fetchAndCacheRecords_Inr by blast
  have "set rollingWeek \<subseteq> set ((case VEHICLE_COUNTS ?s' of None \<Rightarrow> [] | Some c \<Rightarrow> c)
                       @ filter (\<lambda>d. timestamp d > timeLastFetched ?s') docs)"
    unfolding rw filterRollingWeek_def Let_def sortBy_def
    using uniqBy_subset by fastforce
  then show ?thesis using assms(3,4) by auto
qed

text \<open>
  In a zone whose one offset is a multiple of a quarter of an hour, every instant
  in the last seven and a half minutes of a local day is quantized into the next
  local day.
\<close>

lemma quantized_into_next_day:
  assumes "off = 900000 * j" and "85950000 \<le> LocalTime (fixedZone off) t mod msPerDay"
  shows "Day (LocalTime (fixedZone off) (roundToNearestQuarterHour t))
           = Day (LocalTime (fixedZone off) t) + 1"
proof -
  define l where "l = t + off"
  define d where "d = l div 86400000"
  define r where "r = l mod 86400000"
  have lt: "LocalTime (fixedZone off) t = l" by (simp add: LocalTime_def fixedZone_def l_def)
  have r: "85950000 \<le> r" "r < 86400000"
    using assms(2) by (simp_all add: lt r_def msPerDay_def)
  have l: "l = 86400000 * d + r" by (simp add: d_def r_def)
  have "t + 450000 = 900000 * (96 * d - j + 96) + (r - 85950000)"
    using l assms(1) by (simp add: l_def)
  moreover have "(900000 * (96 * d - j + 96) + (r - 85950000)) div 900000 = 96 * d - j + 96"
    by (rule div_add_small) (use r in simp_all)
  ultimately have "(t + 450000) div 900000 = 96 * d - j + 96" by simp
  then have "roundToNearestQuarterHour t = 900000 * (96 * d - j + 96)"
    by (simp add: roundToNearestQuarterHour_div)
  then have "LocalTime (fixedZone off) (roundToNearestQuarterHour t) = 86400000 * (d + 1)"
    using assms(1) by (simp add: LocalTime_def fixedZone_def)
  then have "Day (LocalTime (fixedZone off) (roundToNearestQuarterHour t)) = d + 1"
    by (simp add: Day_def msPerDay_def)
  then show ?thesis by (simp add: lt Day_def msPerDay_def d_def)
qed

section \<open>The order of the days of a bucket\<close>

text \<open>
  The days of a daily bucket are listed in the order in which they first occur in
  the points sorted by timestamp, each with the counts of its points in that order:
  the last day of the bucket is the day that begins last among the points.
\<close>

lemma compactCountsOf_eq:
  "compactCountsOf tz sortedCounts =
     map (\<lambda>day. (day, map vehicleCount
                         (filter (\<lambda>c. getYYYYMMDDDate tz (timestamp c) = day) sortedCounts)))
       (uniqBy (map (\<lambda>c. getYYYYMMDDDate tz (timestamp c)) sortedCounts) id)"
  by (simp add: compactCountsOf_def toPairs_def groupBy_eq comp_def)

section \<open>A failed run and the runs after it\<close>




section \<open>A run after the store failed\<close>








section \<open>Intersections named like a property of Object.prototype\<close>

text \<open>
  A rolling week whose one intersection is not in the camera file but has the name
  of a property of \<open>Object.prototype\<close> is published with the location \<open>undefined\<close>;
  under the name \<open>__proto__\<close> it leaves no key in the processed data.
\<close>

lemma getLocation_prototype:
  "cd name = None \<Longrightarrow> name \<in> set objectPrototypeKeys \<Longrightarrow> getLocation cd name = Inr None"
  by (simp add: getLocation_def)

lemma getLocation_Inl:
  "getLocation cd name = Inl e \<longleftrightarrow>
     e = LocationTypeError \<and> cd name = None \<and> name \<notin> set objectPrototypeKeys"
  by (auto simp add: getLocation_def split: option.splits)

lemma processData_prototype_name:
  assumes "rollingWeek \<noteq> []" and "\<forall>d\<in>set rollingWeek. intersection d = name"
    and "cameraData cfg name = None" and "name \<in> set objectPrototypeKeys"
    and "getOrganizedCounts (zone cfg) (nowOrganize tk name) (quantize rollingWeek) = Inr counts"
  shows "processData cfg tk rollingWeek =
           Inr (if name = ''__proto__'' then []
                else [(name, \<lparr>location = None, data = counts\<rparr>)])"
  using assms(5) getLocation_prototype [of "cameraData cfg" name, OF assms(3,4)]
  by (simp add: processData_one_name [OF assms(1,2)])

lemma example_constructor:
  "processData exampleConfig (tickAt (noonJan12 + 600000) coll)
       [docNoon\<lparr>intersection := ''constructor''\<rparr>]
     = Inr [(''constructor'', \<lparr>location = None, data = [(''2024-1-12'', [6])]\<rparr>)]"
  "processData exampleConfig (tickAt (noonJan12 + 600000) coll)
       [docNoon\<lparr>intersection := ''__proto__''\<rparr>]
     = Inr []"
proof -
  have k: "getYYYYMMDDDate pacific 1705089600000 = ''2024-1-12''"
    by (intro dayKey_2024_1_12) (simp add: Day_pacific)
  have g: "getOrganizedCounts pacific (noonJan12 + 600000)
             (quantize [docNoon\<lparr>intersection := name\<rparr>]) = Inr [(''2024-1-12'', [6])]" for name
  proof -
    let ?q = "\<lparr>timestamp = 1705089600000, vehicleCount = 6, intersection = name\<rparr>"
    have qn: "quantize [docNoon\<lparr>intersection := name\<rparr>] = [?q]"
      by (simp add: quantize_def docNoon_def noonJan12_def roundToNearestQuarterHour_div)
    show ?thesis
      unfolding qn
      using getOrganizedCounts_single_point [of pacific "noonJan12 + 600000" ?q] k
      by (simp add: midnight_after_noonJan12 LAUNCH_DAY_def)
  qed
  have z: "zone exampleConfig = pacific" "nowOrganize (tickAt (noonJan12 + 600000) coll) n
             = noonJan12 + 600000" for n
    by (simp_all add: exampleConfig_def tickAt_def)
  have "processData exampleConfig (tickAt (noonJan12 + 600000) coll)
          [docNoon\<lparr>intersection := ''constructor''\<rparr>]
        = Inr (if ''constructor'' = ''__proto__'' then []
               else [(''constructor'', \<lparr>location = None, data = [(''2024-1-12'', [6])]\<rparr>)])"
  proof (rule processData_prototype_name)
    show "getOrganizedCounts (zone exampleConfig)
            (nowOrganize (tickAt (noonJan12 + 600000) coll) ''constructor'')
            (quantize [docNoon\<lparr>intersection := ''constructor''\<rparr>]) = Inr [(''2024-1-12'', [6])]"
      unfolding z by (rule g)
  qed (simp_all add: exampleConfig_def objectPrototypeKeys_def)
  then show "processData exampleConfig (tickAt (noonJan12 + 600000) coll)
       [docNoon\<lparr>intersection := ''constructor''\<rparr>]
     = Inr [(''constructor'', \<lparr>location = None, data = [(''2024-1-12'', [6])]\<rparr>)]"
    by simp
  have "processData exampleConfig (tickAt (noonJan12 + 600000) coll)
          [docNoon\<lparr>intersection := ''__proto__''\<rparr>]
        = Inr (if ''__proto__'' = ''__proto__'' then []
               else [(''__proto__'', \<lparr>location = None, data = [(''2024-1-12'', [6])]\<rparr>)])"
  proof (rule processData_prototype_name)
    show "getOrganizedCounts (zone exampleConfig)
            (nowOrganize (tickAt (noonJan12 + 600000) coll) ''__proto__'')
            (quantize [docNoon\<lparr>intersection := ''__proto__''\<rparr>]) = Inr [(''2024-1-12'', [6])]"
      unfolding z by (rule g)
  qed (simp_all add: exampleConfig_def objectPrototypeKeys_def)
  then show "processData exampleConfig (tickAt (noonJan12 + 600000) coll)
       [docNoon\<lparr>intersection := ''__proto__''\<rparr>]
     = Inr []"
    by simp
qed

end
